theory Spec2Isabelle
  imports Complex_Main "HOL-Library.Sublist"
begin

section \<open>Python values shared by the scripts\<close>

text \<open>
  A Python \<open>str\<close> is modelled as a \<open>string\<close>, one \<open>char\<close> per code point, so the
  embedding covers text whose code points are below 256. Exceptions are values of
  \<open>py_error\<close>; a function that can raise returns \<open>py_error + 'a\<close> with \<open>Inl\<close> the
  exception that leaves it.
\<close>

datatype py_error =
    ValueError string
  | KeyError string
  | TypeError
  | AttributeError string
  | ZeroDivisionError
  | OverflowError
  | MaxTurnsExceeded
  | ModelBehaviorError
  | AgentsException
  | OtherException string

text \<open>\<open>s.startswith(p)\<close>: the characters of \<open>p\<close> are compared with those of \<open>s\<close> one by one.\<close>

fun startswith :: "string \<Rightarrow> string \<Rightarrow> bool" where
  "startswith s [] = True"
| "startswith [] (p # ps) = False"
| "startswith (c # cs) (p # ps) = (c = p \<and> startswith cs ps)"

section \<open>API key check at module initialisation\<close>

text \<open>
  \<^verbatim>\<open>
  load_dotenv()
  api_key = os.getenv("OPENAI_API_KEY")
  if not api_key:
      raise ValueError("OPENAI_API_KEY not found. Check your .env file.")
  if not api_key.startswith("sk-"):
      raise ValueError("Invalid OpenAI API key format.")
  \<close>
  The environment is the process environment after \<open>load_dotenv()\<close>, a map from names
  to values. \<open>os.getenv\<close> gives \<open>None\<close> for an absent name, and \<open>not api_key\<close> holds for
  \<open>None\<close> and for the empty string. The check returns the key it read when it lets the
  module go on.
\<close>

type_synonym environ = "string \<rightharpoonup> string"

definition getenv :: "environ \<Rightarrow> string \<Rightarrow> string option" where
  "getenv env name = env name"

definition api_key_check :: "environ \<Rightarrow> py_error + string" where
  "api_key_check env =
     (let api_key = getenv env ''OPENAI_API_KEY'' in
      case api_key of
        None \<Rightarrow> Inl (ValueError ''OPENAI_API_KEY not found. Check your .env file.'')
      | Some k \<Rightarrow>
          if k = [] then Inl (ValueError ''OPENAI_API_KEY not found. Check your .env file.'')
          else if \<not> startswith k ''sk-'' then Inl (ValueError ''Invalid OpenAI API key format.'')
          else Inr k)"

lemma startswith_prefix: "startswith s p = prefix p s"
  by (induction s p rule: startswith.induct) auto

text \<open>
  C4. The check raises ValueError when OPENAI_API_KEY is absent, raises ValueError when
  it is present but does not begin with "sk-", and otherwise goes on with the key: it
  never raises for a present key that begins with "sk-".
\<close>

theorem api_key_check_cases:
  "(env ''OPENAI_API_KEY'' = None \<longrightarrow> (\<exists>m. api_key_check env = Inl (ValueError m)))
   \<and> (\<forall>k. env ''OPENAI_API_KEY'' = Some k \<and> \<not> prefix ''sk-'' k
          \<longrightarrow> (\<exists>m. api_key_check env = Inl (ValueError m)))
   \<and> (\<forall>k. env ''OPENAI_API_KEY'' = Some k \<and> prefix ''sk-'' k
          \<longrightarrow> api_key_check env = Inr k)"
  by (auto simp: api_key_check_def getenv_def startswith_prefix)

theorem api_key_check_cases_witness:
  "api_key_check Map.empty = Inl (ValueError ''OPENAI_API_KEY not found. Check your .env file.'')
   \<and> api_key_check [''OPENAI_API_KEY'' \<mapsto> ''pk-123''] = Inl (ValueError ''Invalid OpenAI API key format.'')
   \<and> api_key_check [''OPENAI_API_KEY'' \<mapsto> ''sk-123''] = Inr ''sk-123''"
  using api_key_check_cases [of Map.empty]
    api_key_check_cases [of "[''OPENAI_API_KEY'' \<mapsto> ''pk-123'']"]
    api_key_check_cases [of "[''OPENAI_API_KEY'' \<mapsto> ''sk-123'']"]
  by (simp add: api_key_check_def getenv_def)

section \<open>summarize\_data\<close>

text \<open>
  \<^verbatim>\<open>
  def summarize_data(data):
      if not data:
          return "No data provided."
      return {"count": len(data), "min": min(data), "max": max(data),
              "average": sum(data) / len(data)}
  \<close>
  The numbers are Python ints. \<open>min\<close> and \<open>max\<close> walk the list and keep the first
  least (greatest) element, and raise ValueError on an empty list; \<open>sum\<close> adds from 0,
  left to right.
\<close>

datatype summary = Message string | Stats (count: nat) (minimum: int) (maximum: int) (average: real)

fun py_min :: "int list \<Rightarrow> py_error + int" where
  "py_min [] = Inl (ValueError ''min() arg is an empty sequence'')"
| "py_min (x # xs) = Inr (fold (\<lambda>y m. if y < m then y else m) xs x)"

fun py_max :: "int list \<Rightarrow> py_error + int" where
  "py_max [] = Inl (ValueError ''max() arg is an empty sequence'')"
| "py_max (x # xs) = Inr (fold (\<lambda>y m. if y > m then y else m) xs x)"

definition py_sum :: "int list \<Rightarrow> int" where
  "py_sum xs = fold (\<lambda>x acc. acc + x) xs 0"

text \<open>
  \<open>a / b\<close> on two ints gives a double: the quotient rounded to 53 significant bits,
  a tie going to the even neighbour. It raises ZeroDivisionError for a zero divisor
  and OverflowError when the rounded quotient is beyond the range of a double. A
  double is modelled by the real number it stands for.

  \<open>bit_length n\<close> is \<open>n.bit_length()\<close>. For a quotient \<open>n / d\<close> of positive ints,
  \<open>binary_exponent n d\<close> is the \<open>e\<close> with \<open>2 ^ e \<le> n / d < 2 ^ (e + 1)\<close>; the doubles
  near the quotient are the multiples of \<open>2 ^ (e - 52)\<close>, or of \<open>2 ^ (- 1074)\<close>, the
  smallest positive double, when that is larger.
\<close>

fun bit_length :: "nat \<Rightarrow> nat" where
  "bit_length n = (if n = 0 then 0 else Suc (bit_length (n div 2)))"

declare bit_length.simps [simp del]

definition binary_exponent :: "nat \<Rightarrow> nat \<Rightarrow> int" where
  "binary_exponent n d =
     (let shift = int (bit_length n) - int (bit_length d)
      in if d * 2 ^ nat shift \<le> n * 2 ^ nat (- shift) then shift else shift - 1)"

text \<open>The integer nearest to \<open>n / d\<close>, for \<open>d > 0\<close>; of two nearest integers the even one.\<close>

definition round_half_even :: "int \<Rightarrow> int \<Rightarrow> int" where
  "round_half_even n d =
     (let q = n div d; r = n mod d
      in if 2 * r < d then q else if 2 * r > d then q + 1 else if even q then q else q + 1)"

definition unit_exponent :: "nat \<Rightarrow> nat \<Rightarrow> int" where
  "unit_exponent n d = max (binary_exponent n d - 52) (- 1074)"

definition rounded_quotient :: "nat \<Rightarrow> nat \<Rightarrow> real" where
  "rounded_quotient n d =
     (let u = unit_exponent n d;
          mantissa = round_half_even (int n * 2 ^ nat (- u)) (int d * 2 ^ nat u)
      in real_of_int mantissa * 2 powi u)"

definition truediv :: "int \<Rightarrow> int \<Rightarrow> py_error + real" where
  "truediv a b =
     (if b = 0 then Inl ZeroDivisionError
      else if a = 0 then Inr 0
      else
        let magnitude = rounded_quotient (nat \<bar>a\<bar>) (nat \<bar>b\<bar>)
        in if magnitude \<ge> 2 ^ 1024 then Inl OverflowError
           else Inr (if (a < 0) = (b < 0) then magnitude else - magnitude))"

definition summarize_data :: "int list \<Rightarrow> py_error + summary" where
  "summarize_data data =
     (if data = [] then Inr (Message ''No data provided.'')
      else case py_min data of Inl e \<Rightarrow> Inl e | Inr lo \<Rightarrow>
           case py_max data of Inl e \<Rightarrow> Inl e | Inr hi \<Rightarrow>
           case truediv (py_sum data) (int (length data)) of Inl e \<Rightarrow> Inl e | Inr avg \<Rightarrow>
             Inr (Stats (length data) lo hi avg))"

lemma bit_length_upper: "n < 2 ^ bit_length n"
proof (induction n rule: bit_length.induct)
  case (1 n)
  show ?case
  proof (cases "n = 0")
    case True
    then show ?thesis by (simp add: bit_length.simps)
  next
    case False
    with 1 have "n div 2 < 2 ^ bit_length (n div 2)" by simp
    then have "n < 2 * 2 ^ bit_length (n div 2)" by linarith
    with False show ?thesis by (subst bit_length.simps) simp
  qed
qed

lemma bit_length_lower: "0 < n \<Longrightarrow> 2 ^ bit_length n \<le> 2 * n"
proof (induction n rule: bit_length.induct)
  case (1 n)
  show ?case
  proof (cases "n div 2 = 0")
    case True
    with 1(2) have "n = 1" by (simp add: div_eq_0_iff) 
    then show ?thesis by (simp add: bit_length.simps)
  next
    case False
    with 1 have "2 ^ bit_length (n div 2) \<le> 2 * (n div 2)" by simp
    also have "\<dots> \<le> n" by simp
    finally have "2 * 2 ^ bit_length (n div 2) \<le> 2 * n" by simp
    with 1(2) show ?thesis by (subst bit_length.simps) simp
  qed
qed

lemma round_half_even_error:
  assumes "0 < d"
  shows "\<bar>real_of_int (round_half_even n d) - real_of_int n / real_of_int d\<bar> \<le> 1 / 2"
proof -
  define q r where "q = n div d" and "r = n mod d"
  have n: "n = q * d + r" and r: "0 \<le> r" "r < d"
    using assms by (simp_all add: q_def r_def)
  have x: "real_of_int n / real_of_int d = real_of_int q + real_of_int r / real_of_int d"
    using assms by (simp add: n field_simps)
  have frac: "0 \<le> real_of_int r / real_of_int d" "real_of_int r / real_of_int d < 1"
    using assms r by simp_all
  have half: "(2 * r < d) = (real_of_int r / real_of_int d < 1 / 2)"
             "(2 * r > d) = (real_of_int r / real_of_int d > 1 / 2)"
    using assms by (auto simp: field_simps)
  show ?thesis
    unfolding round_half_even_def Let_def q_def [symmetric] r_def [symmetric] x
    using frac half by auto
qed

lemma binary_exponent_test:
  assumes "0 < n" "0 < d"
  shows "(d * 2 ^ nat shift \<le> n * 2 ^ nat (- shift))
           = (2 powi shift \<le> real n / real d)"
proof (cases "0 \<le> shift")
  case True
  then have "2 powi shift = (2::real) ^ nat shift" by (simp add: power_int_def)
  moreover have "(d * 2 ^ nat shift \<le> n) = (real d * 2 ^ nat shift \<le> real n)"
    by (metis of_nat_le_iff of_nat_mult of_nat_numeral of_nat_power)
  ultimately show ?thesis using True assms by (simp add: field_simps)
next
  case False
  define K :: real where "K = 2 ^ nat (- shift)"
  have K: "0 < K" by (simp add: K_def)
  from False have powi: "2 powi shift = 1 / K"
    by (simp add: K_def power_int_def power_one_over inverse_eq_divide)
  have "(d \<le> n * 2 ^ nat (- shift)) = (real d \<le> real n * K)"
    unfolding K_def by (metis of_nat_le_iff of_nat_mult of_nat_numeral of_nat_power)
  also have "\<dots> = (1 / K \<le> real n / real d)"
    using K assms by (simp add: field_simps)
  finally show ?thesis using False by (simp add: powi)
qed

lemma binary_exponent_bounds:
  assumes "0 < n" "0 < d"
  shows "2 powi binary_exponent n d \<le> real n / real d"
    and "real n / real d < 2 powi (binary_exponent n d + 1)"
proof -
  define P Q :: real where "P = 2 ^ bit_length n" and "Q = 2 ^ bit_length d"
  define shift where "shift = int (bit_length n) - int (bit_length d)"
  have P: "real n < P" "P \<le> 2 * real n"
    using bit_length_upper [of n] bit_length_lower [OF assms(1)]
    unfolding P_def
    by (metis of_nat_less_iff of_nat_numeral of_nat_power,
        metis of_nat_le_iff of_nat_mult of_nat_numeral of_nat_power)
  have Q: "real d < Q" "Q \<le> 2 * real d"
    using bit_length_upper [of d] bit_length_lower [OF assms(2)]
    unfolding Q_def
    by (metis of_nat_less_iff of_nat_numeral of_nat_power,
        metis of_nat_le_iff of_nat_mult of_nat_numeral of_nat_power)
  have pos: "0 < P" "0 < Q" "0 < real d" "0 < real n"
    using assms by (simp_all add: P_def Q_def)
  have shift: "2 powi shift = P / Q"
    by (simp add: shift_def P_def Q_def power_int_diff)
  have up: "2 powi (shift + 1) = 2 * P / Q" and down: "2 powi (shift - 1) = P / (2 * Q)"
    using shift by (simp_all add: power_int_add power_int_diff)
  have "real n * Q < P * Q" using P(1) pos by simp
  also have "\<dots> \<le> P * (2 * real d)" using Q(2) pos by simp
  finally have upper: "real n / real d < 2 powi (shift + 1)"
    unfolding up using pos by (simp add: field_simps)
  have "P * real d < P * Q" using Q(1) pos by simp
  also have "\<dots> \<le> 2 * real n * Q" using P(2) pos by simp
  finally have lower: "2 powi (shift - 1) < real n / real d"
    unfolding down using pos by (simp add: field_simps)
  have e: "binary_exponent n d = (if 2 powi shift \<le> real n / real d then shift else shift - 1)"
    unfolding binary_exponent_def Let_def shift_def [symmetric]
    by (simp add: binary_exponent_test [OF assms])
  show "2 powi binary_exponent n d \<le> real n / real d"
    using lower by (simp add: e)
  show "real n / real d < 2 powi (binary_exponent n d + 1)"
    using upper by (simp add: e)
qed

lemma round_half_even_ge_even:
  assumes "0 < d" "even K"
  shows "(K \<le> round_half_even n d) = (real_of_int K - 1 / 2 \<le> real_of_int n / real_of_int d)"
proof
  assume "K \<le> round_half_even n d"
  then have "real_of_int K \<le> real_of_int (round_half_even n d)" by simp
  with round_half_even_error [OF assms(1), of n]
  show "real_of_int K - 1 / 2 \<le> real_of_int n / real_of_int d" by linarith
next
  assume x: "real_of_int K - 1 / 2 \<le> real_of_int n / real_of_int d"
  define q r where "q = n div d" and "r = n mod d"
  have n: "n = q * d + r" and r: "0 \<le> r" "r < d"
    using assms by (simp_all add: q_def r_def)
  have "real_of_int n / real_of_int d = real_of_int q + real_of_int r / real_of_int d"
    using assms by (simp add: n field_simps)
  with x have "(2 * real_of_int K - 1) * real_of_int d \<le> 2 * real_of_int q * real_of_int d + 2 * real_of_int r"
    using assms by (simp add: field_simps)
  then have "real_of_int ((2 * K - 1) * d) \<le> real_of_int (2 * q * d + 2 * r)"
    by simp
  then have ineq: "(2 * K - 1) * d \<le> 2 * q * d + 2 * r"
    by (simp only: of_int_le_iff)
  have q_ge: "K - 1 \<le> q"
  proof (rule ccontr)
    assume "\<not> K - 1 \<le> q"
    then have "q + 2 \<le> K" by simp
    then have "(2 * (q + 2) - 1) * d \<le> (2 * K - 1) * d" using assms by simp
    with ineq have "(2 * q + 3) * d \<le> 2 * q * d + 2 * r" by (simp add: algebra_simps)
    then have "3 * d \<le> 2 * r" by (simp add: algebra_simps)
    with r assms show False by simp
  qed
  show "K \<le> round_half_even n d"
  proof (cases "K \<le> q")
    case True
    then show ?thesis
      unfolding round_half_even_def Let_def q_def [symmetric] r_def [symmetric] by simp
  next
    case False
    with q_ge have q: "q = K - 1" by simp
    with ineq have "d \<le> 2 * r" by (simp add: algebra_simps)
    moreover from q assms(2) have "odd q" by simp
    ultimately show ?thesis
      unfolding round_half_even_def Let_def q_def [symmetric] r_def [symmetric]
      using q by auto
  qed
qed

lemma round_half_even_exact: "0 < d \<Longrightarrow> round_half_even (k * d) d = k"
  by (simp add: round_half_even_def)

lemma power_int_split: "(2::real) powi u = 2 ^ nat u / 2 ^ nat (- u)"
  by (cases "0 \<le> u") (simp_all add: power_int_def power_one_over inverse_eq_divide)

lemma scaled_quotient:
  assumes "0 < d"
  shows "real_of_int (int n * 2 ^ nat (- u)) / real_of_int (int d * 2 ^ nat u)
           = (real n / real d) / 2 powi u"
  using assms by (simp add: power_int_split field_simps)

lemma rounded_quotient_error:
  assumes "0 < n" "0 < d"
  shows "\<bar>rounded_quotient n d - real n / real d\<bar> \<le> 2 powi unit_exponent n d / 2"
proof -
  define u where "u = unit_exponent n d"
  define m where "m = round_half_even (int n * 2 ^ nat (- u)) (int d * 2 ^ nat u)"
  define p :: real where "p = 2 powi u"
  define x where "x = (real n / real d) / p"
  have pos: "0 < p" by (simp add: p_def)
  have "0 < int d * 2 ^ nat u" using assms by simp
  from round_half_even_error [OF this, of "int n * 2 ^ nat (- u)"]
  have half: "\<bar>real_of_int m - x\<bar> \<le> 1 / 2"
    unfolding m_def x_def p_def scaled_quotient [OF assms(2)] .
  have "x * p = real n / real d" using pos by (simp add: x_def)
  then have "real_of_int m * p - real n / real d = (real_of_int m - x) * p"
    by (simp add: left_diff_distrib)
  then have "\<bar>real_of_int m * p - real n / real d\<bar> = \<bar>real_of_int m - x\<bar> * p"
    using pos by (simp add: abs_mult)
  also have "\<dots> \<le> 1 / 2 * p"
    using half pos by (rule mult_right_mono [OF _ less_imp_le])
  finally have "\<bar>real_of_int m * p - real n / real d\<bar> \<le> p / 2" by simp
  moreover have "rounded_quotient n d = real_of_int m * p"
    by (simp add: rounded_quotient_def Let_def u_def [symmetric] m_def [symmetric] p_def)
  ultimately show ?thesis by (simp add: p_def u_def)
qed

lemma two_powi_less_iff: "((2::real) powi a < 2 powi b) = (a < b)"
proof
  assume "(2::real) powi a < 2 powi b"
  show "a < b"
  proof (rule ccontr)
    assume "\<not> a < b"
    then have "b \<le> a" by simp
    then have "(2::real) powi b \<le> 2 powi a" by (intro power_int_increasing) simp_all
    with \<open>(2::real) powi a < 2 powi b\<close> show False by simp
  qed
next
  assume "a < b"
  then show "(2::real) powi a < 2 powi b" by (intro power_int_strict_increasing) simp_all
qed

lemma two_powi_le_iff: "((2::real) powi a \<le> 2 powi b) = (a \<le> b)"
  using two_powi_less_iff [of b a] by (simp add: not_less [symmetric])

lemma rounded_quotient_relative:
  assumes "0 < n" "0 < d"
  shows "\<bar>rounded_quotient n d - real n / real d\<bar>
           \<le> max (real n / real d / 2 ^ 53) (1 / 2 ^ 1075)"
proof -
  define e where "e = binary_exponent n d"
  have lower: "2 powi e \<le> real n / real d"
    unfolding e_def by (rule binary_exponent_bounds [OF assms])
  have u: "unit_exponent n d = max (e - 52) (- 1074)"
    by (simp add: unit_exponent_def e_def)
  have err: "\<bar>rounded_quotient n d - real n / real d\<bar> \<le> 2 powi unit_exponent n d / 2"
    by (rule rounded_quotient_error [OF assms])
  show ?thesis
  proof (cases "- 1074 \<le> e - 52")
    case True
    then have "unit_exponent n d = e - 52" by (simp add: u)
    then have "(2::real) powi unit_exponent n d / 2 = 2 powi e / 2 ^ 53"
      by (simp add: power_int_diff)
    also have "\<dots> \<le> real n / real d / 2 ^ 53"
      using lower by (simp add: divide_right_mono)
    finally show ?thesis using err by linarith
  next
    case False
    then have "unit_exponent n d = - 1074" by (simp add: u)
    then have "(2::real) powi unit_exponent n d / 2 = 1 / 2 ^ 1075"
      by (simp add: power_int_minus_divide)
    then show ?thesis using err by linarith
  qed
qed

lemma rounded_quotient_exact:
  assumes "0 < d" "0 < k" "k \<le> 2 ^ 53"
  shows "rounded_quotient (k * d) d = real k"
proof -
  define e where "e = binary_exponent (k * d) d"
  define u where "u = unit_exponent (k * d) d"
  have q: "real (k * d) / real d = real k" using assms by simp
  have "2 powi e \<le> real k"
    using binary_exponent_bounds(1) [of "k * d" d] assms by (simp add: e_def)
  also have "real k \<le> 2 powi 53" using assms(3)
    by (metis of_nat_le_iff of_nat_numeral of_nat_power power_int_numeral)
  finally have e53: "e \<le> 53" by (simp only: two_powi_le_iff)
  have u: "u = max (e - 52) (- 1074)" by (simp add: u_def unit_exponent_def e_def)
  have rq: "rounded_quotient (k * d) d
      = real_of_int (round_half_even (int (k * d) * 2 ^ nat (- u)) (int d * 2 ^ nat u)) * 2 powi u"
    by (simp add: rounded_quotient_def Let_def u_def)
  show ?thesis
  proof (cases "u \<le> 0")
    case True
    have "int (k * d) * 2 ^ nat (- u) = (int k * 2 ^ nat (- u)) * int d" by simp
    moreover from True have "int d * 2 ^ nat u = int d" by simp
    ultimately have "round_half_even (int (k * d) * 2 ^ nat (- u)) (int d * 2 ^ nat u)
                = int k * 2 ^ nat (- u)"
      using round_half_even_exact [of "int d" "int k * 2 ^ nat (- u)"] assms(1)
      by (simp only: of_nat_0_less_iff)
    moreover from True have "(2::real) powi u = 1 / 2 ^ nat (- u)"
      by (simp add: power_int_split)
    ultimately show ?thesis
      by (simp add: rq)
  next
    case False
    with u e53 have u1: "u = 1" and "e = 53" by auto
    from \<open>e = 53\<close> have "2 ^ 53 \<le> real k"
      using binary_exponent_bounds(1) [of "k * d" d] assms by (simp add: e_def)
    then have "2 ^ 53 \<le> k"
      by (metis of_nat_le_iff of_nat_numeral of_nat_power)
    with assms(3) have k: "k = 2 ^ 53" by simp
    have "int (k * d) = 2 ^ 52 * (int d * 2)" by (simp add: k)
    then have "round_half_even (int (k * d) * 2 ^ nat (- u)) (int d * 2 ^ nat u) = 2 ^ 52"
      using round_half_even_exact [of "int d * 2" "2 ^ 52"] assms(1)
      by (simp add: u1)
    then have "rounded_quotient (k * d) d = 2 ^ 52 * 2 powi 1"
      by (simp add: rq u1)
    then show ?thesis by (simp add: k)
  qed
qed

lemma overflow_threshold:
  "(2 ^ 1024 - 2 ^ 970 :: real) / 2 powi 971 = 2 ^ 53 - 1 / 2"
  "(2::real) ^ 1023 \<le> 2 ^ 1024 - 2 ^ 970"
  "(2 ^ 1024 - 2 ^ 970 :: real) < 2 ^ 1024"
  by simp_all

lemma rounded_quotient_overflow_iff:
  assumes "0 < n" "0 < d"
  shows "(2 ^ 1024 \<le> rounded_quotient n d) = (2 ^ 1024 - 2 ^ 970 \<le> real n / real d)"
proof -
  define e where "e = binary_exponent n d"
  define u where "u = unit_exponent n d"
  define m where "m = round_half_even (int n * 2 ^ nat (- u)) (int d * 2 ^ nat u)"
  define q where "q = real n / real d"
  define x where "x = q / 2 powi u"
  have lo: "2 powi e \<le> q" and hi: "q < 2 powi (e + 1)"
    unfolding e_def q_def by (rule binary_exponent_bounds [OF assms])+
  have u: "u = max (e - 52) (- 1074)" by (simp add: u_def unit_exponent_def e_def)
  have rq: "rounded_quotient n d = real_of_int m * 2 powi u"
    by (simp add: rounded_quotient_def Let_def u_def m_def)
  have dpos: "0 < int d * 2 ^ nat u" using assms by simp
  have m_ge: "(K \<le> m) = (real_of_int K - 1 / 2 \<le> x)" if "even K" for K
    unfolding m_def x_def q_def
    using round_half_even_ge_even [OF dpos that, of "int n * 2 ^ nat (- u)"]
    by (simp only: scaled_quotient [OF assms(2)])
  have m_le: "real_of_int m \<le> x + 1 / 2"
    using round_half_even_error [OF dpos, of "int n * 2 ^ nat (- u)"]
    unfolding m_def [symmetric] scaled_quotient [OF assms(2)] q_def [symmetric] x_def [symmetric]
    by linarith
  have even53: "even (2 ^ 53 :: int)" and even52: "even (2 ^ 52 :: int)" by simp_all
  show ?thesis
  proof
    assume T: "2 ^ 1024 - 2 ^ 970 \<le> real n / real d"
    then have "2 powi 1023 \<le> q" using overflow_threshold(2) by (simp add: q_def)
    with hi have "(2::real) powi 1023 < 2 powi (e + 1)" by linarith
    then have e1023: "1023 \<le> e" by (simp only: two_powi_less_iff; simp)
    then have u52: "u = e - 52" by (simp add: u)
    show "2 ^ 1024 \<le> rounded_quotient n d"
    proof (cases "e = 1023")
      case True
      then have u971: "u = 971" by (simp add: u52)
      have "(2 ^ 1024 - 2 ^ 970) / 2 powi 971 \<le> x"
        unfolding x_def u971 using T by (simp add: q_def divide_right_mono)
      then have "real_of_int (2 ^ 53) - 1 / 2 \<le> x"
        by (simp only: overflow_threshold(1); simp)
      then have "2 ^ 53 \<le> m" by (simp only: m_ge [OF even53]; simp)
      then have "real_of_int (2 ^ 53) \<le> real_of_int m" by (simp only: of_int_le_iff)
      then have "real_of_int (2 ^ 53) * 2 powi 971 \<le> real_of_int m * 2 powi (971::int)"
        by (intro mult_right_mono) simp_all
      moreover have "real_of_int (2 ^ 53) * 2 powi 971 = (2::real) ^ 1024" by simp
      ultimately have "(2::real) ^ 1024 \<le> real_of_int m * 2 powi (971::int)" by (simp only:)
      then show ?thesis by (simp only: rq u971)
    next
      case False
      with e1023 have e1024: "1024 \<le> e" by simp
      have "2 powi e / 2 powi u \<le> x"
        unfolding x_def using lo by (simp add: divide_right_mono)
      moreover have "(2::real) powi e / 2 powi u = 2 ^ 52"
        by (simp add: u52 power_int_diff)
      ultimately have "real_of_int (2 ^ 52) - 1 / 2 \<le> x" by simp
      then have "2 ^ 52 \<le> m" by (simp only: m_ge [OF even52]; simp)
      then have "real_of_int (2 ^ 52) \<le> real_of_int m" by (simp only: of_int_le_iff)
      then have a: "2 ^ 52 * 2 powi u \<le> real_of_int m * 2 powi u"
        by (intro mult_right_mono) simp_all
      have b: "(2::real) ^ 52 * 2 powi u = 2 powi e"
        by (simp add: u52 power_int_diff)
      have "(2::real) powi 1024 \<le> 2 powi e"
        using e1024 by (simp only: two_powi_le_iff)
      then have "(2::real) ^ 1024 \<le> 2 powi e" by simp
      also have "\<dots> = 2 ^ 52 * 2 powi u" by (simp only: b)
      also note a
      finally show ?thesis by (simp only: rq)
    qed
  next
    assume over: "2 ^ 1024 \<le> rounded_quotient n d"
    show "2 ^ 1024 - 2 ^ 970 \<le> real n / real d"
    proof (rule ccontr)
      assume "\<not> 2 ^ 1024 - 2 ^ 970 \<le> real n / real d"
      then have T: "q < 2 ^ 1024 - 2 ^ 970" by (simp add: q_def)
      with lo overflow_threshold(3) have "(2::real) powi e < 2 powi 1024" by simp
      then have e1023: "e \<le> 1023" by (simp only: two_powi_less_iff; simp)
      then have u971: "u \<le> 971" and ue: "e - 52 \<le> u" by (simp_all add: u)
      have "x < 2 powi (e + 1) / 2 powi u"
        unfolding x_def using hi by (simp add: divide_strict_right_mono)
      also have "\<dots> = 2 powi (e + 1 - u)" by (simp add: power_int_diff)
      also have "\<dots> \<le> 2 powi 53" using ue by (simp only: two_powi_le_iff; simp)
      finally have "x < 2 ^ 53" by simp
      with m_le have "real_of_int m < real_of_int (2 ^ 53 + 1)" by simp
      then have m53: "m \<le> 2 ^ 53" by (simp only: of_int_less_iff; simp)
      show False
      proof (cases "u = 971")
        case True
        have "x < (2 ^ 1024 - 2 ^ 970) / 2 powi 971"
          unfolding x_def True using T by (simp add: divide_strict_right_mono)
        then have "\<not> real_of_int (2 ^ 53) - 1 / 2 \<le> x"
          by (simp only: overflow_threshold(1); simp)
        then have "\<not> 2 ^ 53 \<le> m" by (simp only: m_ge [OF even53]; simp)
        then have "m \<le> 2 ^ 53 - 1" by simp
        then have "real_of_int m \<le> real_of_int (2 ^ 53 - 1)" by (simp only: of_int_le_iff)
        then have "real_of_int m * 2 powi (971::int) \<le> real_of_int (2 ^ 53 - 1) * 2 powi 971"
          by (intro mult_right_mono) simp_all
        also have "\<dots> < 2 ^ 1024" by simp
        finally have "real_of_int m * 2 powi (971::int) < 2 ^ 1024" .
        moreover from over have "2 ^ 1024 \<le> real_of_int m * 2 powi (971::int)"
          by (simp only: rq True)
        ultimately show False by linarith
      next
        case False
        with u971 have "u \<le> 970" by simp
        then have "(2::real) powi u \<le> 2 powi 970" by (simp only: two_powi_le_iff)
        from m53 have "real_of_int m \<le> real_of_int (2 ^ 53)" by (simp only: of_int_le_iff)
        then have "real_of_int m * 2 powi u \<le> real_of_int (2 ^ 53) * 2 powi u"
          by (intro mult_right_mono) simp_all
        also have "\<dots> \<le> real_of_int (2 ^ 53) * 2 powi 970"
          using \<open>(2::real) powi u \<le> 2 powi 970\<close> by (intro mult_left_mono) simp_all
        also have "\<dots> < 2 ^ 1024" by simp
        finally have "real_of_int m * 2 powi u < 2 ^ 1024" .
        moreover from over have "2 ^ 1024 \<le> real_of_int m * 2 powi u"
          by (simp only: rq)
        ultimately show False by linarith
      qed
    qed
  qed
qed

lemma fold_min_Min: "fold (\<lambda>y m. if y < m then y else m) xs (x::int) = Min (set (x # xs))"
proof (induction xs arbitrary: x)
  case Nil
  show ?case by simp
next
  case (Cons y ys)
  have "Min (insert x (insert y (set ys))) = Min (insert (min y x) (set ys))"
    by (cases "set ys = {}") (simp_all add: min.commute min.left_commute)
  with Cons show ?case by (simp add: min_def not_less)
qed

lemma fold_max_Max: "fold (\<lambda>y m. if y > m then y else m) xs (x::int) = Max (set (x # xs))"
proof (induction xs arbitrary: x)
  case Nil
  show ?case by simp
next
  case (Cons y ys)
  have "Max (insert x (insert y (set ys))) = Max (insert (max y x) (set ys))"
    by (cases "set ys = {}") (simp_all add: max.commute max.left_commute)
  with Cons show ?case by (simp add: max_def not_less)
qed

lemma py_sum_sum_list: "py_sum xs = sum_list xs"
proof -
  have "fold (\<lambda>x acc. acc + x) xs a = a + sum_list xs" for a :: int
    by (induction xs arbitrary: a) simp_all
  then show ?thesis by (simp add: py_sum_def)
qed

lemma magnitude_quotient:
  assumes "0 < b"
  shows "real (nat \<bar>a\<bar>) / real (nat \<bar>b\<bar>) = \<bar>real_of_int a / real_of_int b\<bar>"
  using assms by simp

lemma truediv_overflow_iff:
  assumes "0 < b"
  shows "(truediv a b = Inl OverflowError)
           = (2 ^ 1024 - 2 ^ 970 \<le> \<bar>real_of_int a / real_of_int b\<bar>)"
proof (cases "a = 0")
  case True
  with assms show ?thesis by (simp add: truediv_def)
next
  case False
  with assms have pos: "0 < nat \<bar>a\<bar>" "0 < nat \<bar>b\<bar>" by simp_all
  show ?thesis
    using assms False rounded_quotient_overflow_iff [OF pos]
    unfolding magnitude_quotient [OF assms]
    by (simp add: truediv_def Let_def)
qed

lemma truediv_error:
  assumes "0 < b" "\<bar>real_of_int a / real_of_int b\<bar> < 2 ^ 1024 - 2 ^ 970"
  shows "\<exists>r. truediv a b = Inr r
           \<and> \<bar>r - real_of_int a / real_of_int b\<bar>
               \<le> max (\<bar>real_of_int a / real_of_int b\<bar> / 2 ^ 53) (1 / 2 ^ 1075)"
proof (cases "a = 0")
  case True
  with assms show ?thesis by (simp add: truediv_def)
next
  case False
  with assms have pos: "0 < nat \<bar>a\<bar>" "0 < nat \<bar>b\<bar>" by simp_all
  define r where "r = rounded_quotient (nat \<bar>a\<bar>) (nat \<bar>b\<bar>)"
  have small: "\<not> 2 ^ 1024 \<le> r"
    using assms(2) rounded_quotient_overflow_iff [OF pos]
    unfolding magnitude_quotient [OF assms(1)] r_def by simp
  have err: "\<bar>r - \<bar>real_of_int a / real_of_int b\<bar>\<bar>
               \<le> max (\<bar>real_of_int a / real_of_int b\<bar> / 2 ^ 53) (1 / 2 ^ 1075)"
    using rounded_quotient_relative [OF pos]
    unfolding magnitude_quotient [OF assms(1)] r_def .
  show ?thesis
  proof (cases "a < 0")
    case True
    with assms(1) have neg: "\<bar>real_of_int a / real_of_int b\<bar> = - (real_of_int a / real_of_int b)"
      by (simp add: divide_neg_pos abs_of_neg)
    from True assms(1) False small have "truediv a b = Inr (- r)"
      by (simp add: truediv_def Let_def r_def)
    moreover have "\<bar>- r - real_of_int a / real_of_int b\<bar>
        = \<bar>r - \<bar>real_of_int a / real_of_int b\<bar>\<bar>"
      unfolding neg by (simp add: abs_minus_commute)
    ultimately show ?thesis using err by simp
  next
    case nonneg: False
    with False assms(1) have "\<bar>real_of_int a / real_of_int b\<bar> = real_of_int a / real_of_int b"
      by simp
    moreover from nonneg assms(1) False small have "truediv a b = Inr r"
      by (simp add: truediv_def Let_def r_def)
    ultimately show ?thesis using err by simp
  qed
qed

lemma truediv_exact:
  assumes "0 < b" "\<bar>k\<bar> \<le> 2 ^ 53"
  shows "truediv (k * b) b = Inr (real_of_int k)"
proof (cases "k = 0")
  case True
  with assms show ?thesis by (simp add: truediv_def)
next
  case False
  define kn where "kn = nat \<bar>k\<bar>"
  have kn: "0 < kn" "kn \<le> 2 ^ 53" "real kn = \<bar>real_of_int k\<bar>"
    using False assms(2) by (simp_all add: kn_def nat_le_iff)
  have n: "nat \<bar>k * b\<bar> = kn * nat \<bar>b\<bar>"
    by (simp add: kn_def abs_mult nat_mult_distrib)
  from assms(1) have "0 < nat \<bar>b\<bar>" by simp
  from rounded_quotient_exact [OF this kn(1,2)]
  have rq: "rounded_quotient (nat \<bar>k * b\<bar>) (nat \<bar>b\<bar>) = \<bar>real_of_int k\<bar>"
    by (simp add: n kn(3))
  have "\<bar>real_of_int k\<bar> \<le> 2 ^ 53"
    using assms(2) by (metis of_int_abs of_int_le_iff of_int_numeral of_int_power)
  then have small: "\<not> 2 ^ 1024 \<le> \<bar>real_of_int k\<bar>" by simp
  define M where "M = rounded_quotient (nat \<bar>k * b\<bar>) (nat \<bar>b\<bar>)"
  from assms(1) False have nz: "b \<noteq> 0" "k * b \<noteq> 0" by simp_all
  have "truediv (k * b) b =
          (if 2 ^ 1024 \<le> M then Inl OverflowError
           else Inr (if (k * b < 0) = (b < 0) then M else - M))"
    unfolding truediv_def Let_def M_def [symmetric] using nz by (simp only: if_False)
  moreover have "M = \<bar>real_of_int k\<bar>" by (simp only: M_def rq)
  moreover from assms(1) False have "(k * b < 0) = (k < 0)"
    by (simp add: mult_less_0_iff)
  ultimately show ?thesis
    using assms(1) small by (simp only:) auto
qed

lemma summarize_data_nonempty:
  assumes "data \<noteq> []"
  shows "summarize_data data =
          (case truediv (sum_list data) (int (length data)) of
             Inl e \<Rightarrow> Inl e
           | Inr avg \<Rightarrow> Inr (Stats (length data) (Min (set data)) (Max (set data)) avg))"
proof -
  from assms obtain x xs where d: "data = x # xs" by (cases data) auto
  show ?thesis
    unfolding d summarize_data_def py_sum_sum_list
    by (simp add: fold_min_Min fold_max_Max del: set_simps)
qed

lemma summarize_data_overflow:
  assumes "data \<noteq> []"
    "2 ^ 1024 - 2 ^ 970 \<le> \<bar>real_of_int (sum_list data) / real (length data)\<bar>"
  shows "summarize_data data = Inl OverflowError"
proof -
  from assms(1) have len: "0 < int (length data)" by simp
  from assms(2) truediv_overflow_iff [OF len, of "sum_list data"]
  have "truediv (sum_list data) (int (length data)) = Inl OverflowError" by simp
  then show ?thesis by (simp add: summarize_data_nonempty [OF assms(1)])
qed




section \<open>APIKeyManager.validate\_key\<close>

text \<open>
  The enums \<open>KeyStatus\<close> and \<open>KeyScope\<close>, the class \<open>APIKeyInfo\<close> and the private
  methods of \<open>APIKeyManager\<close> that \<open>validate_key\<close> calls are declared outside the
  sources at hand. The status enum is modelled with the two members the code names
  and one constructor for the others; the scope is a type parameter; the record
  has the fields that \<open>create_key\<close> fills. The private methods are parameters of the
  model, each a function on the manager's state \<open>'s\<close>. \<open>datetime.now()\<close> is the
  parameter \<open>now\<close>.
\<close>

datatype KeyStatus = ACTIVE | EXPIRED | OtherStatus string

type_synonym datetime = int

record 'scope APIKeyInfo =
  key_id :: string
  key_hash :: string
  name :: string
  description :: string
  scope :: 'scope
  status :: KeyStatus
  created_at :: datetime
  expires_at :: "datetime option"
  allowed_tools :: "string list"
  rate_limit :: int
  ip_whitelist :: "string list"

datatype security_event =
    Invalid_key_format string
  | Unknown_key_used string
  | Unauthorized_ip string string

record ('s, 'scope) manager_methods =
  validate_key_format :: "string \<Rightarrow> bool"
  hash_key :: "string \<Rightarrow> string"
  find_key_by_hash :: "string \<Rightarrow> 's \<Rightarrow> 'scope APIKeyInfo option"
  log_security_event :: "security_event \<Rightarrow> 's \<Rightarrow> 's"
  update_key_status :: "string \<Rightarrow> KeyStatus \<Rightarrow> 's \<Rightarrow> 's"
  check_rate_limit :: "string \<Rightarrow> int \<Rightarrow> 's \<Rightarrow> bool \<times> 's"
  check_scope_permission :: "'scope \<Rightarrow> 'scope \<Rightarrow> bool"
  update_usage_metrics :: "string \<Rightarrow> 's \<Rightarrow> 's"

text \<open>The second component of the returned tuple: the reason of a refusal.\<close>

datatype refusal =
    Invalid_key_format_msg
  | Invalid_API_key
  | Key_is KeyStatus
  | Key_has_expired
  | IP_address_not_authorized
  | Rate_limit_exceeded
  | Insufficient_permissions
  | Tool_access_denied "string set"

text \<open>The dict returned with an accepted key.\<close>

record 'scope key_summary =
  sum_key_id :: string
  sum_scope :: 'scope
  sum_allowed_tools :: "string list"
  sum_name :: string

type_synonym 'scope validation = "bool \<times> refusal option \<times> 'scope key_summary option"

text \<open>
  \<^verbatim>\<open>
  if required_tools:
      missing_tools = set(required_tools) - set(key_info.allowed_tools)
      if missing_tools and key_info.allowed_tools:
          return False, f"Tool access denied: {missing_tools}", None
  \<close>
  A list or a set is true when it is not empty; \<open>None\<close> is false.
\<close>

definition tool_check :: "string list option \<Rightarrow> string list \<Rightarrow> refusal option" where
  "tool_check required_tools allowed =
     (case required_tools of
        None \<Rightarrow> None
      | Some req \<Rightarrow>
          if req = [] then None
          else let missing_tools = set req - set allowed in
               if missing_tools \<noteq> {} \<and> allowed \<noteq> [] then Some (Tool_access_denied missing_tools)
               else None)"

text \<open>
  \<^verbatim>\<open>
  if key_info.ip_whitelist and client_ip:
      if client_ip not in key_info.ip_whitelist:
  \<close>
  The address that is refused, if any.
\<close>

definition ip_refused :: "string list \<Rightarrow> string option \<Rightarrow> string option" where
  "ip_refused whitelist client_ip =
     (case client_ip of
        None \<Rightarrow> None
      | Some ip \<Rightarrow> if whitelist \<noteq> [] \<and> ip \<noteq> [] \<and> ip \<notin> set whitelist then Some ip else None)"

definition validate_key ::
  "('s, 'scope) manager_methods \<Rightarrow> datetime \<Rightarrow> string \<Rightarrow> 'scope option \<Rightarrow>
   string list option \<Rightarrow> string option \<Rightarrow> 's \<Rightarrow> 'scope validation \<times> 's" where
  "validate_key self now api_key required_scope required_tools client_ip s =
    (if \<not> validate_key_format self api_key then
       ((False, Some Invalid_key_format_msg, None),
        log_security_event self (Invalid_key_format (take 10 api_key)) s)
     else
       let kh = hash_key self api_key in
       case find_key_by_hash self kh s of
         None \<Rightarrow>
           ((False, Some Invalid_API_key, None),
            log_security_event self (Unknown_key_used (take 16 kh)) s)
       | Some key_info \<Rightarrow>
           if status key_info \<noteq> ACTIVE then
             ((False, Some (Key_is (status key_info)), None), s)
           else if (case expires_at key_info of None \<Rightarrow> False | Some t \<Rightarrow> now > t) then
             ((False, Some Key_has_expired, None),
              update_key_status self (key_id key_info) EXPIRED s)
           else
           case ip_refused (ip_whitelist key_info) client_ip of
             Some ip \<Rightarrow>
               ((False, Some IP_address_not_authorized, None),
                log_security_event self (Unauthorized_ip (key_id key_info) ip) s)
           | None \<Rightarrow>
             case check_rate_limit self (key_id key_info) (rate_limit key_info) s of
               (within_limit, s1) \<Rightarrow>
                 if \<not> within_limit then ((False, Some Rate_limit_exceeded, None), s1)
                 else if (case required_scope of None \<Rightarrow> False
                          | Some rs \<Rightarrow> \<not> check_scope_permission self (scope key_info) rs) then
                   ((False, Some Insufficient_permissions, None), s1)
                 else
                   case tool_check required_tools (allowed_tools key_info) of
                     Some denied \<Rightarrow> ((False, Some denied, None), s1)
                   | None \<Rightarrow>
                       ((True, None,
                         Some \<lparr>sum_key_id = key_id key_info, sum_scope = scope key_info,
                               sum_allowed_tools = allowed_tools key_info,
                               sum_name = name key_info\<rparr>),
                        update_usage_metrics self (key_id key_info) s1))"

text \<open>A manager with one stored key, for concrete runs: every helper accepts.\<close>

definition demo_key :: "string list \<Rightarrow> nat APIKeyInfo" where
  "demo_key tools =
     \<lparr>key_id = ''key_1'', key_hash = ''h'', name = ''demo'', description = ''demo key'',
      scope = 0, status = ACTIVE, created_at = 0, expires_at = None,
      allowed_tools = tools, rate_limit = 1000, ip_whitelist = []\<rparr>"

definition demo_manager :: "string list \<Rightarrow> (security_event list, nat) manager_methods" where
  "demo_manager tools =
     \<lparr>validate_key_format = (\<lambda>k. True), hash_key = (\<lambda>k. ''h''),
      find_key_by_hash = (\<lambda>h s. if h = ''h'' then Some (demo_key tools) else None),
      log_security_event = (\<lambda>e s. s @ [e]),
      update_key_status = (\<lambda>k st s. s),
      check_rate_limit = (\<lambda>k n s. (True, s)),
      check_scope_permission = (\<lambda>have want. want \<le> have),
      update_usage_metrics = (\<lambda>k s. s)\<rparr>"

lemma tool_check_empty_allowed: "tool_check required_tools [] = None"
  by (simp add: tool_check_def split: option.split)

lemma tool_check_denied:
  "tool_check required_tools allowed = Some r \<Longrightarrow>
     allowed \<noteq> [] \<and> (\<exists>req. required_tools = Some req \<and> req \<noteq> []
        \<and> r = Tool_access_denied (set req - set allowed) \<and> set req - set allowed \<noteq> {})"
  by (auto simp: tool_check_def Let_def split: option.splits if_splits)

text \<open>
  C7. A key whose allowed\_tools list is empty passes the tool-permission check for
  every required\_tools argument: the call gives what it gives with no required tools.
  "Tool access denied" is returned only when the key's allowed\_tools is not empty and
  at least one required tool is missing from it.
\<close>

theorem validate_key_tool_check:
  assumes "find_key_by_hash self (hash_key self api_key) s = Some key_info"
  shows "(allowed_tools key_info = [] \<longrightarrow>
            validate_key self now api_key required_scope (Some req) client_ip s
              = validate_key self now api_key required_scope None client_ip s)
       \<and> (\<forall>ms. fst (validate_key self now api_key required_scope required_tools client_ip s)
                  = (False, Some (Tool_access_denied ms), None)
              \<longrightarrow> allowed_tools key_info \<noteq> []
                  \<and> (\<exists>rt. required_tools = Some rt \<and> ms = set rt - set (allowed_tools key_info)
                        \<and> (\<exists>t \<in> set rt. t \<notin> set (allowed_tools key_info))))"
proof -
  have empty: "validate_key self now api_key required_scope (Some req) client_ip s
              = validate_key self now api_key required_scope None client_ip s"
    if "allowed_tools key_info = []"
    using assms that
    by (simp add: validate_key_def Let_def tool_check_empty_allowed
             split: option.split prod.split)
  have denied: "allowed_tools key_info \<noteq> []
                  \<and> (\<exists>rt. required_tools = Some rt \<and> ms = set rt - set (allowed_tools key_info)
                        \<and> (\<exists>t \<in> set rt. t \<notin> set (allowed_tools key_info)))"
    if "fst (validate_key self now api_key required_scope required_tools client_ip s)
                  = (False, Some (Tool_access_denied ms), None)" for ms
  proof -
    from that assms
    have "tool_check required_tools (allowed_tools key_info) = Some (Tool_access_denied ms)"
      by (auto simp: validate_key_def Let_def split: option.splits prod.splits if_splits)
    from tool_check_denied [OF this] show ?thesis by auto
  qed
  from empty denied show ?thesis by blast
qed

theorem validate_key_tool_check_witness:
  "fst (validate_key (demo_manager []) 5 ''sk'' None (Some [''search'']) None [])
     = (True, None, Some \<lparr>sum_key_id = ''key_1'', sum_scope = 0, sum_allowed_tools = [],
                           sum_name = ''demo''\<rparr>)
   \<and> fst (validate_key (demo_manager [''calc'']) 5 ''sk'' None (Some [''search'', ''calc'']) None [])
     = (False, Some (Tool_access_denied {''search''}), None)"
proof -
  have found: "find_key_by_hash (demo_manager tools) (hash_key (demo_manager tools) ''sk'') []
                 = Some (demo_key tools)" for tools
    by (simp add: demo_manager_def)
  have none: "fst (validate_key (demo_manager []) 5 ''sk'' None None None [])
     = (True, None, Some \<lparr>sum_key_id = ''key_1'', sum_scope = 0, sum_allowed_tools = [],
                           sum_name = ''demo''\<rparr>)"
    by (simp add: validate_key_def demo_manager_def demo_key_def ip_refused_def tool_check_def)
  have denied: "fst (validate_key (demo_manager [''calc'']) 5 ''sk'' None (Some [''search'', ''calc'']) None [])
     = (False, Some (Tool_access_denied {''search''}), None)"
    by (auto simp: validate_key_def demo_manager_def demo_key_def ip_refused_def tool_check_def)
  from validate_key_tool_check [OF found, of "[]" 5 None "[''search'']" None "Some [''search'']"]
       validate_key_tool_check [OF found, of "[''calc'']" 5 None "[''search'']" None
          "Some [''search'', ''calc'']"]
  show ?thesis using none denied by (simp add: demo_key_def)
qed

section \<open>Guardrail callbacks\<close>

text \<open>
  \<open>GuardrailFunctionOutput\<close> is the SDK's result of a guardrail callback: the
  information the callback reports and whether its tripwire fired.
\<close>

record 'info GuardrailFunctionOutput =
  output_info :: 'info
  tripwire_triggered :: bool

subsection \<open>content\_safety\_guardrail\<close>

record ContentSafetyOutput =
  is_safe :: bool
  reasoning :: string

text \<open>
  \<^verbatim>\<open>
  result = await Runner.run(content_safety_agent, input_data, context=ctx.context)
  safety_result = result.final_output
  return GuardrailFunctionOutput(output_info=safety_result,
                                 tripwire_triggered=not safety_result.is_safe)
  \<close>
  \<open>run_safety\<close> is the run of the content safety agent: it gives the agent's final
  output, or the exception the SDK raises, which leaves the callback.
\<close>

definition content_safety_guardrail ::
  "('ctx \<Rightarrow> string \<Rightarrow> py_error + ContentSafetyOutput) \<Rightarrow> 'ctx \<Rightarrow> string \<Rightarrow>
   py_error + ContentSafetyOutput GuardrailFunctionOutput" where
  "content_safety_guardrail run_safety ctx input_data =
     (case run_safety ctx input_data of
        Inl e \<Rightarrow> Inl e
      | Inr safety_result \<Rightarrow>
          Inr \<lparr>output_info = safety_result,
               tripwire_triggered = (\<not> ContentSafetyOutput.is_safe safety_result)\<rparr>)"

subsection \<open>healthcare\_input\_guardrail\<close>

record HealthcareComplianceResult =
  is_compliant :: bool
  violation_type :: "string option"
  risk_level :: string
  recommendations :: "string list"
  requires_disclaimer :: bool

text \<open>
  \<^verbatim>\<open>
  compliance_result = await healthcare_guardrails.validate_healthcare_input(input_data)
  if not compliance_result.is_compliant:
      if compliance_result.risk_level == "high":
          return GuardrailFunctionOutput(output_info=compliance_result,
                                         tripwire_triggered=True)
  return GuardrailFunctionOutput(output_info=compliance_result,
                                 tripwire_triggered=False)
  \<close>
  The method \<open>validate_healthcare_input\<close> is a parameter: it gives a compliance
  result, or raises.
\<close>

definition healthcare_input_guardrail ::
  "(string \<Rightarrow> py_error + HealthcareComplianceResult) \<Rightarrow> string \<Rightarrow>
   py_error + HealthcareComplianceResult GuardrailFunctionOutput" where
  "healthcare_input_guardrail validate_healthcare_input input_data =
     (case validate_healthcare_input input_data of
        Inl e \<Rightarrow> Inl e
      | Inr compliance_result \<Rightarrow>
          if \<not> is_compliant compliance_result
             \<and> HealthcareComplianceResult.risk_level compliance_result = ''high''
          then Inr \<lparr>output_info = compliance_result, tripwire_triggered = True\<rparr>
          else Inr \<lparr>output_info = compliance_result, tripwire_triggered = False\<rparr>)"

text \<open>
  The result that the file builds when the compliance check itself fails:
  \<^verbatim>\<open>
  # Fail safe - assume non-compliant
  return HealthcareComplianceResult(is_compliant=False, violation_type="validation_error",
      risk_level="medium", recommendations=["Manual review required"],
      requires_disclaimer=True)
  \<close>
  and a compliance check that gives it.
\<close>

definition fail_safe_result :: HealthcareComplianceResult where
  "fail_safe_result =
     \<lparr>is_compliant = False, violation_type = Some ''validation_error'',
      risk_level = ''medium'', recommendations = [''Manual review required''],
      requires_disclaimer = True\<rparr>"

definition failed_compliance_check :: "string \<Rightarrow> py_error + HealthcareComplianceResult" where
  "failed_compliance_check input_text = Inr fail_safe_result"

subsection \<open>comprehensive\_input\_guardrail\<close>

text \<open>
  The confidence is a double in the code; its type is the parameter \<open>'c\<close>, and what
  the code computes on doubles is a parameter of the model.
\<close>

record 'c InputValidationResult =
  is_safe :: bool
  risk_level :: string
  violations :: "string list"
  confidence :: 'c
  recommended_action :: string

text \<open>
  Lines 81 to 103 of the file build an \<open>InputValidationResult\<close> from the names
  \<open>max_risk_level\<close> and \<open>all_violations\<close>:
  \<^verbatim>\<open>
  is_safe = max_risk_level in ["low", "medium"]
  confidence = max(0.1, 1.0 - (len(all_violations) * 0.2))
  if max_risk_level == "critical":  recommended_action = "block"
  elif max_risk_level == "high":    recommended_action = "review"
  elif max_risk_level == "medium":  recommended_action = "monitor"
  else:                             recommended_action = "allow"
  return InputValidationResult(is_safe=is_safe, risk_level=max_risk_level,
      violations=all_violations, confidence=confidence,
      recommended_action=recommended_action)
  \<close>
  The \<open>def\<close> line that these lines belong to is not part of the file as it is at
  hand. \<open>confidence_of\<close> is the double that the second line gives for a number of
  violations.
\<close>

definition validation_result ::
  "(nat \<Rightarrow> 'c) \<Rightarrow> string \<Rightarrow> string list \<Rightarrow> 'c InputValidationResult" where
  "validation_result confidence_of max_risk_level all_violations =
     \<lparr>is_safe = (max_risk_level \<in> set [''low'', ''medium'']),
      risk_level = max_risk_level,
      violations = all_violations,
      confidence = confidence_of (length all_violations),
      recommended_action =
        (if max_risk_level = ''critical'' then ''block''
         else if max_risk_level = ''high'' then ''review''
         else if max_risk_level = ''medium'' then ''monitor''
         else ''allow'')\<rparr>"

text \<open>The dict \<open>{"low": 0, "medium": 1, "high": 2, "critical": 3}\<close>; an absent key raises KeyError.\<close>

definition risk_hierarchy :: "string \<Rightarrow> py_error + nat" where
  "risk_hierarchy x =
     (if x = ''low'' then Inr 0 else if x = ''medium'' then Inr 1
      else if x = ''high'' then Inr 2 else if x = ''critical'' then Inr 3
      else Inl (KeyError x))"

text \<open>\<open>max(a, b, key=...)\<close>: the key of each argument is taken in turn; \<open>a\<close> stays unless \<open>b\<close>'s key is greater.\<close>

definition max_by_risk :: "string \<Rightarrow> string \<Rightarrow> py_error + string" where
  "max_by_risk a b =
     (case risk_hierarchy a of Inl e \<Rightarrow> Inl e | Inr ka \<Rightarrow>
      case risk_hierarchy b of Inl e \<Rightarrow> Inl e | Inr kb \<Rightarrow>
        Inr (if kb > ka then b else a))"

fun join :: "string \<Rightarrow> string list \<Rightarrow> string" where
  "join sep [] = []"
| "join sep [x] = x"
| "join sep (x # y # ys) = x @ sep @ join sep (y # ys)"

definition newline :: char where
  "newline = CHR 0x0A"

definition validation_prompt :: "string \<Rightarrow> string list \<Rightarrow> string" where
  "validation_prompt input_data basic_violations =
     newline # ''        Analyze this user input for safety and appropriateness:''
     @ newline # ''        '' @ newline # ''        Input: '' @ take 1000 input_data @ ''...''
     @ newline # ''        '' @ newline # ''        Basic validation found these concerns: ''
     @ join '', '' basic_violations
     @ newline # ''        '' @ newline # ''        Provide a comprehensive safety assessment.''
     @ newline # ''        ''"

text \<open>
  What the callback uses and the file does not define:
  \<^item> \<open>validate_comprehensive\<close>, the method of \<open>AdvancedInputValidator\<close> called at
    line 134, whose \<open>def\<close> is not in the file as it is at hand;
  \<^item> \<open>run_validation\<close>, the run of the validation agent with its final output, or the
    exception it raises;
  \<^item> \<open>list_of_set\<close>, \<open>list(set(xs))\<close>: the elements of \<open>xs\<close>, each once, in the order
    in which Python walks the set, which the language does not fix;
  \<^item> \<open>float_min\<close>, \<open>min\<close> on two doubles.
\<close>

record ('ctx, 'c) validation_services =
  validate_comprehensive :: "string \<Rightarrow> string list \<Rightarrow> py_error + 'c InputValidationResult"
  run_validation :: "'ctx \<Rightarrow> string \<Rightarrow> py_error + 'c InputValidationResult"
  list_of_set :: "string list \<Rightarrow> string list"
  float_min :: "'c \<Rightarrow> 'c \<Rightarrow> 'c"

text \<open>
  The body of the \<open>try\<close>: the run of the validation agent and the combination of its
  result with the rule-based one.
  \<^verbatim>\<open>
  ai_result = await Runner.run(validation_agent, validation_prompt, context=ctx.context)
  ai_validation = ai_result.final_output
  combined_violations = list(set(basic_validation.violations + ai_validation.violations))
  final_risk_level = max(basic_validation.risk_level, ai_validation.risk_level,
                         key=lambda x: {"low": 0, "medium": 1, "high": 2, "critical": 3}[x])
  final_result = InputValidationResult(is_safe=ai_validation.is_safe,
      risk_level=final_risk_level, violations=combined_violations,
      confidence=min(basic_validation.confidence, ai_validation.confidence),
      recommended_action=ai_validation.recommended_action)
  \<close>
\<close>

definition ai_validation_step ::
  "('ctx, 'c) validation_services \<Rightarrow> 'ctx \<Rightarrow> string \<Rightarrow> 'c InputValidationResult \<Rightarrow>
   py_error + 'c InputValidationResult" where
  "ai_validation_step services ctx validation_prompt_text basic_validation =
     (case run_validation services ctx validation_prompt_text of
        Inl e \<Rightarrow> Inl e
      | Inr ai_validation \<Rightarrow>
          let combined_violations =
                list_of_set services (violations basic_validation @ violations ai_validation) in
          case max_by_risk (risk_level basic_validation) (risk_level ai_validation) of
            Inl e \<Rightarrow> Inl e
          | Inr final_risk_level \<Rightarrow>
              Inr \<lparr>is_safe = is_safe ai_validation,
                   risk_level = final_risk_level,
                   violations = combined_violations,
                   confidence = float_min services (confidence basic_validation)
                                  (confidence ai_validation),
                   recommended_action = recommended_action ai_validation\<rparr>)"

text \<open>
  \<^verbatim>\<open>
  basic_validation = advanced_validator.validate_comprehensive(
      input_data, allowed_domains=["general", "customer_service"])
  if basic_validation.risk_level == "critical":
      return GuardrailFunctionOutput(output_info=basic_validation, tripwire_triggered=True)
  if basic_validation.risk_level in ["medium", "high"]:
      validation_prompt = ...
      try:
          ...
      except Exception as e:
          final_result = basic_validation
  else:
      final_result = basic_validation
  return GuardrailFunctionOutput(output_info=final_result,
                                 tripwire_triggered=not final_result.is_safe)
  \<close>
  An exception of \<open>validate_comprehensive\<close> leaves the callback; one raised in the
  \<open>try\<close> is caught.
\<close>

definition comprehensive_input_guardrail ::
  "('ctx, 'c) validation_services \<Rightarrow> 'ctx \<Rightarrow> string \<Rightarrow>
   py_error + 'c InputValidationResult GuardrailFunctionOutput" where
  "comprehensive_input_guardrail services ctx input_data =
     (case validate_comprehensive services input_data [''general'', ''customer_service''] of
        Inl e \<Rightarrow> Inl e
      | Inr basic_validation \<Rightarrow>
          if risk_level basic_validation = ''critical'' then
            Inr \<lparr>output_info = basic_validation, tripwire_triggered = True\<rparr>
          else
            let final_result =
                  (if risk_level basic_validation \<in> set [''medium'', ''high'']
                   then case ai_validation_step services ctx
                               (validation_prompt input_data (violations basic_validation))
                               basic_validation of
                          Inr combined \<Rightarrow> combined
                        | Inl e \<Rightarrow> basic_validation
                   else basic_validation)
            in Inr \<lparr>output_info = final_result,
                    tripwire_triggered = (\<not> is_safe final_result)\<rparr>)"

text \<open>
  Services for concrete runs: the rule-based validator ends with the lines quoted
  above and finds a critical risk; the validation agent is not reached.
\<close>

definition demo_services :: "(unit, nat) validation_services" where
  "demo_services =
     \<lparr>validate_comprehensive =
        (\<lambda>input_text allowed_domains.
           Inr (validation_result (\<lambda>n. 10 - 2 * n) ''critical'' [''prompt injection''])),
      run_validation = (\<lambda>ctx prompt. Inl (OtherException ''not reached'')),
      list_of_set = remdups,
      float_min = min\<rparr>"

definition unsafe_output :: ContentSafetyOutput where
  "unsafe_output = \<lparr>ContentSafetyOutput.is_safe = False, reasoning = ''threat''\<rparr>"

definition demo_run_safety :: "unit \<Rightarrow> string \<Rightarrow> py_error + ContentSafetyOutput" where
  "demo_run_safety ctx input_text = Inr unsafe_output"


lemma validation_result_critical_unsafe:
  "InputValidationResult.risk_level (validation_result confidence_of level found) = ''critical''
     \<Longrightarrow> \<not> is_safe (validation_result confidence_of level found)"
  by (auto simp: validation_result_def)



section \<open>Retry loops\<close>

text \<open>
  Both loops call \<open>Runner.run_sync\<close> once per attempt. The run is the parameter
  \<open>run_sync\<close>: the outcome of the call made in attempt \<open>k\<close>, the result of the run or
  the exception it raises. Each function returns what the Python returns or raises,
  together with the number of calls of \<open>run_sync\<close> it made.
  \<open>range(max_retries)\<close> is \<open>[0..<nat max_retries]\<close>: it is empty for
  \<open>max_retries \<le> 0\<close>.
\<close>

subsection \<open>RobustAgent.execute\_with\_retry\<close>

text \<open>
  \<^verbatim>\<open>
  def _create_error_response(self, message: str):
      class ErrorResult:
          def __init__(self, message):
              self.final_output = message
              self.last_agent = self.agent
              self.new_items = []
              self.raw_responses = []
      return ErrorResult(message)
  \<close>
  An object is the map of its attributes. Inside \<open>__init__\<close> the name \<open>self\<close> is the
  new \<open>ErrorResult\<close> object, whose class has no attribute of its own; reading an
  attribute that the object does not have raises AttributeError.
\<close>

datatype attr_value = Text string | Items "string list"

type_synonym py_object = "string \<rightharpoonup> attr_value"

definition getattr :: "py_object \<Rightarrow> string \<Rightarrow> py_error + attr_value" where
  "getattr obj a = (case obj a of None \<Rightarrow> Inl (AttributeError a) | Some v \<Rightarrow> Inr v)"

definition ErrorResult_init :: "string \<Rightarrow> py_error + py_object" where
  "ErrorResult_init message =
     (let self = Map.empty(''final_output'' \<mapsto> Text message) in
      case getattr self ''agent'' of
        Inl e \<Rightarrow> Inl e
      | Inr agent \<Rightarrow>
          Inr (self(''last_agent'' \<mapsto> agent, ''new_items'' \<mapsto> Items [],
                    ''raw_responses'' \<mapsto> Items [])))"

definition create_error_response :: "string \<Rightarrow> py_error + py_object" where
  "create_error_response message = ErrorResult_init message"

datatype 'r execution = RunResult 'r | ErrorResult py_object

text \<open>The message chosen by the \<open>except\<close> clause that catches the exception.\<close>

fun failure_message :: "py_error \<Rightarrow> string" where
  "failure_message MaxTurnsExceeded = ''The request was too complex to complete.''"
| "failure_message ModelBehaviorError = ''Unable to process request due to response format issues.''"
| "failure_message e = ''An unexpected error occurred. Please try again.''"

definition fallback :: "string \<Rightarrow> py_error + 'r execution" where
  "fallback message =
     (case create_error_response message of Inl e \<Rightarrow> Inl e | Inr obj \<Rightarrow> Inr (ErrorResult obj))"

text \<open>
  \<^verbatim>\<open>
  for attempt in range(self.max_retries):
      try:
          result = Runner.run_sync(self.agent, user_input, max_turns=5, **kwargs)
          return result
      except MaxTurnsExceeded:
          if attempt == self.max_retries - 1:
              return self._create_error_response("The request was too complex to complete.")
      except ModelBehaviorError as e:
          if attempt == self.max_retries - 1:
              return self._create_error_response("Unable to process request ...")
      except Exception as e:
          if attempt == self.max_retries - 1:
              return self._create_error_response("An unexpected error occurred. ...")
  return self._create_error_response("Service temporarily unavailable.")
  \<close>
  An exception raised inside an \<open>except\<close> clause is not caught by the clauses beside
  it: it leaves the function.
\<close>

fun execute_loop ::
  "(nat \<Rightarrow> py_error + 'r) \<Rightarrow> int \<Rightarrow> nat list \<Rightarrow> nat \<Rightarrow> (py_error + 'r execution) \<times> nat" where
  "execute_loop run_sync max_retries [] calls =
     (fallback ''Service temporarily unavailable.'', calls)"
| "execute_loop run_sync max_retries (attempt # rest) calls =
     (case run_sync attempt of
        Inr result \<Rightarrow> (Inr (RunResult result), Suc calls)
      | Inl e \<Rightarrow>
          if int attempt = max_retries - 1 then (fallback (failure_message e), Suc calls)
          else execute_loop run_sync max_retries rest (Suc calls))"

definition execute_with_retry ::
  "(nat \<Rightarrow> py_error + 'r) \<Rightarrow> int \<Rightarrow> (py_error + 'r execution) \<times> nat" where
  "execute_with_retry run_sync max_retries =
     execute_loop run_sync max_retries [0..<nat max_retries] 0"

subsection \<open>safe\_agent\_execution\<close>

text \<open>
  \<^verbatim>\<open>
  for attempt in range(max_retries):
      try:
          result = Runner.run_sync(agent, prompt, max_turns=5)
          return result
      except MaxTurnsExceeded:
          if attempt == max_retries - 1: return None
      except ModelBehaviorError as e:
          if attempt == max_retries - 1: return None
      except AgentsException as e:
          return None
      except Exception as e:
          if attempt == max_retries - 1: return None
  return None
  \<close>
  \<open>AgentsException\<close> stands for the SDK's exceptions other than the two caught before
  it, which are its subclasses.
\<close>

fun safe_loop ::
  "(nat \<Rightarrow> py_error + 'r) \<Rightarrow> int \<Rightarrow> nat list \<Rightarrow> nat \<Rightarrow> 'r option \<times> nat" where
  "safe_loop run_sync max_retries [] calls = (None, calls)"
| "safe_loop run_sync max_retries (attempt # rest) calls =
     (case run_sync attempt of
        Inr result \<Rightarrow> (Some result, Suc calls)
      | Inl AgentsException \<Rightarrow> (None, Suc calls)
      | Inl e \<Rightarrow>
          if int attempt = max_retries - 1 then (None, Suc calls)
          else safe_loop run_sync max_retries rest (Suc calls))"

definition safe_agent_execution ::
  "(nat \<Rightarrow> py_error + 'r) \<Rightarrow> int \<Rightarrow> 'r option \<times> nat" where
  "safe_agent_execution run_sync max_retries =
     safe_loop run_sync max_retries [0..<nat max_retries] 0"

lemma create_error_response_raises:
  "create_error_response message = Inl (AttributeError ''agent'')"
  by (simp add: create_error_response_def ErrorResult_init_def getattr_def)

lemma fallback_raises: "fallback message = Inl (AttributeError ''agent'')"
  by (simp add: fallback_def create_error_response_raises)

lemma execute_loop_calls:
  "snd (execute_loop run_sync max_retries attempts calls) \<le> calls + length attempts"
proof (induction attempts arbitrary: calls)
  case Nil
  show ?case by simp
next
  case (Cons attempt rest)
  from Cons [of "Suc calls"] show ?case by (auto split: sum.splits)
qed

lemma safe_loop_calls:
  "snd (safe_loop run_sync max_retries attempts calls) \<le> calls + length attempts"
proof (induction attempts arbitrary: calls)
  case Nil
  show ?case by simp
next
  case (Cons attempt rest)
  from Cons [of "Suc calls"] show ?case by (auto split: sum.splits py_error.splits)
qed

text \<open>
  Both loops are total functions, and neither makes more than \<open>max_retries\<close> calls of
  the run.
\<close>

lemma retry_loops_bounded:
  "snd (execute_with_retry run_sync max_retries) \<le> nat max_retries
   \<and> snd (safe_agent_execution run_sync max_retries) \<le> nat max_retries"
  using execute_loop_calls [of run_sync max_retries "[0..<nat max_retries]" 0]
    safe_loop_calls [of run_sync max_retries "[0..<nat max_retries]" 0]
  by (simp add: execute_with_retry_def safe_agent_execution_def)

lemma safe_loop_all_failed:
  "\<forall>k \<in> set attempts. \<exists>e. run_sync k = Inl e \<Longrightarrow>
     fst (safe_loop run_sync max_retries attempts calls) = None"
  by (induction attempts arbitrary: calls) (auto split: sum.splits py_error.splits)

text \<open>safe\_agent\_execution returns None when every attempt fails.\<close>

lemma safe_agent_execution_all_failed:
  "\<forall>k < nat max_retries. \<exists>e. run_sync k = Inl e \<Longrightarrow>
     fst (safe_agent_execution run_sync max_retries) = None"
  using safe_loop_all_failed [of "[0..<nat max_retries]" run_sync max_retries 0]
  by (simp add: safe_agent_execution_def)

text \<open>
  C3. After the final failed attempt execute\_with\_retry is to return a constructed
  error response. With the default of three attempts and a run that exceeds its turns
  every time, it makes its three calls and then raises AttributeError: building the
  error response reads the attribute \<open>agent\<close> of the new ErrorResult object, which has
  none. safe\_agent\_execution, on the same run, returns None after three calls.
\<close>

theorem execute_with_retry_fallback_raises:
  "execute_with_retry (\<lambda>attempt. Inl MaxTurnsExceeded :: py_error + string) 3
     = (Inl (AttributeError ''agent''), 3)
   \<and> safe_agent_execution (\<lambda>attempt. Inl MaxTurnsExceeded :: py_error + string) 3 = (None, 3)"
  by (simp add: execute_with_retry_def safe_agent_execution_def fallback_raises upt_rec)

section \<open>Conditional routing\<close>

text \<open>\<open>sub in s\<close> on strings: \<open>sub\<close> occurs in \<open>s\<close> at some position.\<close>

fun contains :: "string \<Rightarrow> string \<Rightarrow> bool" where
  "contains sub [] = (sub = [])"
| "contains sub (c # cs) = (startswith (c # cs) sub \<or> contains sub cs)"

datatype agent =
    processor_agent
  | finalizer_agent
  | reviewer_agent
  | human_review_agent
  | supervisor_agent
  | error_handler_agent

record ProcessingContext =
  request_id :: string
  user_type :: string
  priority :: string
  routing_history :: "string list"
  created_at :: datetime

text \<open>
  \<open>Runner.run(agent, prompt)\<close> is the parameter \<open>run\<close>: the final output of the run
  or the exception it raises. The state threaded through the workflow is the context,
  whose routing history grows, and the list of the runs made so far, each with its
  agent and its prompt.
\<close>

record workflow_state =
  wf_context :: ProcessingContext
  runs :: "(agent \<times> string) list"

definition append_history :: "string \<Rightarrow> workflow_state \<Rightarrow> workflow_state" where
  "append_history entry st =
     st\<lparr>wf_context :=
          (wf_context st)\<lparr>routing_history := routing_history (wf_context st) @ [entry]\<rparr>\<rparr>"

definition Runner_run ::
  "(agent \<Rightarrow> string \<Rightarrow> py_error + string) \<Rightarrow> agent \<Rightarrow> string \<Rightarrow> workflow_state \<Rightarrow>
   (py_error + string) \<times> workflow_state" where
  "Runner_run run a prompt st = (run a prompt, st\<lparr>runs := runs st @ [(a, prompt)]\<rparr>)"

text \<open>
  \<^verbatim>\<open>
  outcome = "SUCCESS_MEDIUM"  # Default
  if "SUCCESS_HIGH" in processor_response:          outcome = "SUCCESS_HIGH"
  elif "SUCCESS_MEDIUM" in processor_response:      outcome = "SUCCESS_MEDIUM"
  elif "NEEDS_REVIEW" in processor_response:        outcome = "NEEDS_REVIEW"
  elif "REQUIRES_ESCALATION" in processor_response: outcome = "REQUIRES_ESCALATION"
  elif "ERROR" in processor_response:               outcome = "ERROR"
  \<close>
\<close>

definition extract_outcome :: "string \<Rightarrow> string" where
  "extract_outcome processor_response =
     (if contains ''SUCCESS_HIGH'' processor_response then ''SUCCESS_HIGH''
      else if contains ''SUCCESS_MEDIUM'' processor_response then ''SUCCESS_MEDIUM''
      else if contains ''NEEDS_REVIEW'' processor_response then ''NEEDS_REVIEW''
      else if contains ''REQUIRES_ESCALATION'' processor_response then ''REQUIRES_ESCALATION''
      else if contains ''ERROR'' processor_response then ''ERROR''
      else ''SUCCESS_MEDIUM'')"

text \<open>Step 2 of the workflow: the branch taken for the outcome, up to the returned output.\<close>

definition route ::
  "(agent \<Rightarrow> string \<Rightarrow> py_error + string) \<Rightarrow> string \<Rightarrow> string \<Rightarrow> workflow_state \<Rightarrow>
   (py_error + string) \<times> workflow_state" where
  "route run input_data outcome st =
     (if outcome = ''SUCCESS_HIGH'' then
        Runner_run run finalizer_agent (''Finalize this request: '' @ input_data)
          (append_history ''Routed to Finalizer (high confidence)'' st)
      else if outcome = ''SUCCESS_MEDIUM'' then
        (case Runner_run run reviewer_agent (''Review this request: '' @ input_data)
                (append_history ''Routed to Reviewer (medium confidence)'' st) of
           (Inl e, st1) \<Rightarrow> (Inl e, st1)
         | (Inr review_output, st1) \<Rightarrow>
             Runner_run run finalizer_agent (''Finalize reviewed content: '' @ review_output)
               (append_history ''Reviewed, now finalizing'' st1))
      else if outcome = ''NEEDS_REVIEW'' then
        Runner_run run human_review_agent (''Human review needed for: '' @ input_data)
          (append_history ''Routed to Human Review Agent'' st)
      else if outcome = ''REQUIRES_ESCALATION'' then
        Runner_run run supervisor_agent (''Escalated case: '' @ input_data)
          (append_history ''Escalated to Supervisor Agent'' st)
      else
        Runner_run run error_handler_agent (''Handle error in request: '' @ input_data)
          (append_history ''Error handling triggered'' st))"

definition conditional_workflow ::
  "(agent \<Rightarrow> string \<Rightarrow> py_error + string) \<Rightarrow> string \<Rightarrow> ProcessingContext \<Rightarrow>
   (py_error + string) \<times> workflow_state" where
  "conditional_workflow run input_data ctx =
     (case Runner_run run processor_agent (''Process this request: '' @ input_data)
             (append_history ''Started with Processor Agent'' \<lparr>wf_context = ctx, runs = []\<rparr>) of
        (Inl e, st) \<Rightarrow> (Inl e, st)
      | (Inr processor_response, st) \<Rightarrow>
          route run input_data (extract_outcome processor_response) st)"

text \<open>A processor that asks for a human review, and downstream agents that echo their prompt.\<close>

definition demo_run :: "agent \<Rightarrow> string \<Rightarrow> py_error + string" where
  "demo_run a prompt =
     (if a = processor_agent then Inr ''NEEDS_REVIEW: the request is ambiguous''
      else Inr (''handled: '' @ prompt))"

definition demo_context :: ProcessingContext where
  "demo_context = \<lparr>request_id = ''REQ-001'', user_type = ''standard'', priority = ''normal'',
                    routing_history = [], created_at = 0\<rparr>"

lemma contains_sublist: "contains sub s = sublist sub s"
  by (induction s) (auto simp: startswith_prefix sublist_Cons_right)

lemma extract_outcome_find:
  "extract_outcome response =
     (case find (\<lambda>label. sublist label response)
        [''SUCCESS_HIGH'', ''SUCCESS_MEDIUM'', ''NEEDS_REVIEW'', ''REQUIRES_ESCALATION'', ''ERROR''] of
        Some label \<Rightarrow> label | None \<Rightarrow> ''SUCCESS_MEDIUM'')"
  by (simp add: extract_outcome_def contains_sublist)

lemma extract_outcome_cases:
  "extract_outcome response \<in> set [''SUCCESS_HIGH'', ''SUCCESS_MEDIUM'', ''NEEDS_REVIEW'', ''REQUIRES_ESCALATION'', ''ERROR'']"
  by (simp add: extract_outcome_def)

text \<open>
  C1. For every processor response, the outcome is the first of SUCCESS\_HIGH,
  SUCCESS\_MEDIUM, NEEDS\_REVIEW, REQUIRES\_ESCALATION, ERROR that occurs in the
  response, and SUCCESS\_MEDIUM when none occurs. The workflow then runs the one
  downstream path of that outcome: the finalizer; the reviewer and then the
  finalizer (the finalizer is not reached when the reviewer's run raises); the human
  review agent; the supervisor; the error handler. What it returns is the outcome of
  the last run it made.
\<close>

theorem conditional_workflow_routing:
  assumes "run processor_agent (''Process this request: '' @ input_data) = Inr response"
  shows "let outcome = (case find (\<lambda>label. sublist label response)
                          [''SUCCESS_HIGH'', ''SUCCESS_MEDIUM'', ''NEEDS_REVIEW'',
                           ''REQUIRES_ESCALATION'', ''ERROR''] of
                          Some label \<Rightarrow> label | None \<Rightarrow> ''SUCCESS_MEDIUM'');
             result = conditional_workflow run input_data ctx;
             invoked = map fst (runs (snd result))
         in extract_outcome response = outcome
            \<and> outcome \<in> set [''SUCCESS_HIGH'', ''SUCCESS_MEDIUM'', ''NEEDS_REVIEW'',
                               ''REQUIRES_ESCALATION'', ''ERROR'']
            \<and> (outcome = ''SUCCESS_HIGH'' \<longrightarrow> invoked = [processor_agent, finalizer_agent])
            \<and> (outcome = ''SUCCESS_MEDIUM'' \<longrightarrow>
                  invoked = (case run reviewer_agent (''Review this request: '' @ input_data) of
                               Inr review \<Rightarrow> [processor_agent, reviewer_agent, finalizer_agent]
                             | Inl e \<Rightarrow> [processor_agent, reviewer_agent]))
            \<and> (outcome = ''NEEDS_REVIEW'' \<longrightarrow> invoked = [processor_agent, human_review_agent])
            \<and> (outcome = ''REQUIRES_ESCALATION'' \<longrightarrow> invoked = [processor_agent, supervisor_agent])
            \<and> (outcome = ''ERROR'' \<longrightarrow> invoked = [processor_agent, error_handler_agent])
            \<and> fst result = (case last (runs (snd result)) of (a, prompt) \<Rightarrow> run a prompt)"
proof -
  define outcome where "outcome = extract_outcome response"
  have cw: "conditional_workflow run input_data ctx =
          route run input_data outcome
            (append_history ''Started with Processor Agent'' \<lparr>wf_context = ctx, runs = []\<rparr>
              \<lparr>runs := [(processor_agent, ''Process this request: '' @ input_data)]\<rparr>)"
    using assms by (simp add: conditional_workflow_def Runner_run_def append_history_def outcome_def)
  have "outcome \<in> set [''SUCCESS_HIGH'', ''SUCCESS_MEDIUM'', ''NEEDS_REVIEW'', ''REQUIRES_ESCALATION'', ''ERROR'']"
    unfolding outcome_def by (rule extract_outcome_cases)
  then show ?thesis
    unfolding extract_outcome_find [symmetric] Let_def outcome_def [symmetric] cw
    by (auto simp: route_def Runner_run_def append_history_def split: sum.splits)
qed

theorem conditional_workflow_routing_witness:
  "map fst (runs (snd (conditional_workflow demo_run ''reset my password'' demo_context)))
     = [processor_agent, human_review_agent]
   \<and> fst (conditional_workflow demo_run ''reset my password'' demo_context)
     = Inr ''handled: Human review needed for: reset my password''"
proof -
  have h: "demo_run processor_agent (''Process this request: '' @ ''reset my password'')
             = Inr ''NEEDS_REVIEW: the request is ambiguous''"
    by (simp add: demo_run_def)
  have last_run: "last (runs (snd (conditional_workflow demo_run ''reset my password'' demo_context)))
     = (human_review_agent, ''Human review needed for: reset my password'')"
    by (simp add: conditional_workflow_def Runner_run_def append_history_def demo_run_def
          extract_outcome_def route_def)
  from h conditional_workflow_routing [of demo_run "''reset my password''"
      "''NEEDS_REVIEW: the request is ambiguous''" demo_context]
  show ?thesis
    by (simp add: contains_sublist [symmetric] last_run demo_run_def Let_def)
qed

section \<open>SecureAgentWrapper\<close>

text \<open>
  \<open>str.lower()\<close> on code points below 256: the letters A to Z and the capital letters
  of Latin-1 (192 to 222 without the multiplication sign 215) move up by 32.
\<close>

definition code_point :: "char \<Rightarrow> nat" where
  "code_point c = of_char c"

definition lower_char :: "char \<Rightarrow> char" where
  "lower_char c =
     (let n = code_point c in
      if (65 \<le> n \<and> n \<le> 90) \<or> (192 \<le> n \<and> n \<le> 214) \<or> (216 \<le> n \<and> n \<le> 222)
      then char_of (n + 32) else c)"

definition lower :: "string \<Rightarrow> string" where
  "lower s = map lower_char s"

text \<open>
  \<open>s.replace(old, new)\<close>: the occurrences of \<open>old\<close> are replaced from the left, each
  search starting behind the last replacement; an empty \<open>old\<close> puts \<open>new\<close> before each
  character and at the end.
\<close>

function replace_from :: "string \<Rightarrow> string \<Rightarrow> string \<Rightarrow> string" where
  "replace_from [] old new = []"
| "replace_from (c # cs) old new =
     (if startswith (c # cs) old then new @ replace_from (drop (length old - 1) cs) old new
      else c # replace_from cs old new)"
  by pat_completeness auto
termination
  by (relation "measure (\<lambda>(s, old, new). length s)") auto

definition replace :: "string \<Rightarrow> string \<Rightarrow> string \<Rightarrow> string" where
  "replace s old new =
     (if old = [] then new @ concat (map (\<lambda>c. c # new) s) else replace_from s old new)"

text \<open>\<open>d.get(key, default)\<close> for a key that the dict may lack.\<close>

definition dict_get :: "'a option \<Rightarrow> 'a \<Rightarrow> 'a" where
  "dict_get entry fallback_value = (case entry of None \<Rightarrow> fallback_value | Some v \<Rightarrow> v)"

record security_policies =
  blocked_patterns :: "string list option"
  redact_patterns :: "string list option"
  max_input_length :: "int option"

text \<open>The messages that the wrapper formats, with the value each one carries.\<close>

datatype message =
    Input_contains_blocked_pattern string
  | Input_exceeds_maximum_length int
  | Input_validated
  | Execution_failed py_error

text \<open>
  Of \<open>log_interaction\<close> the sources hold the last lines: the entry takes its
  \<open>success\<close> from the metadata and is appended to the audit log. The entry is
  modelled by the arguments of the call.
\<close>

record audit_entry =
  logged_input :: string
  logged_output :: string
  logged_metadata :: "string \<rightharpoonup> string"
  logged_success :: bool

record SecureAgentWrapper =
  agent :: string
  policies :: security_policies
  audit_log :: "audit_entry list"

fun first_blocked :: "string list \<Rightarrow> string \<Rightarrow> string option" where
  "first_blocked [] user_input = None"
| "first_blocked (pattern # rest) user_input =
     (if contains (lower pattern) (lower user_input) then Some pattern
      else first_blocked rest user_input)"

definition validate_input :: "SecureAgentWrapper \<Rightarrow> string \<Rightarrow> bool \<times> message" where
  "validate_input self user_input =
     (let sensitive_patterns = dict_get (blocked_patterns (policies self)) [] in
      case first_blocked sensitive_patterns user_input of
        Some pattern \<Rightarrow> (False, Input_contains_blocked_pattern pattern)
      | None \<Rightarrow>
          let max_length = dict_get (max_input_length (policies self)) 1000 in
          if int (length user_input) > max_length
          then (False, Input_exceeds_maximum_length max_length)
          else (True, Input_validated))"

definition sanitize_output :: "SecureAgentWrapper \<Rightarrow> string \<Rightarrow> string" where
  "sanitize_output self output =
     (let sensitive_data = dict_get (redact_patterns (policies self)) [] in
      fold (\<lambda>pattern sanitized. replace sanitized pattern ''[REDACTED]'') sensitive_data output)"

definition log_interaction ::
  "string \<Rightarrow> string \<Rightarrow> (string \<rightharpoonup> string) \<Rightarrow> bool \<Rightarrow> SecureAgentWrapper \<Rightarrow> SecureAgentWrapper" where
  "log_interaction user_input output metadata ok self =
     self\<lparr>audit_log := audit_log self
        @ [\<lparr>logged_input = user_input, logged_output = output, logged_metadata = metadata,
             logged_success = ok\<rparr>]\<rparr>"

text \<open>The dict that \<open>secure_execute\<close> returns; a key that a dict lacks is \<open>None\<close>.\<close>

record execution_report =
  success :: bool
  error :: "message option"
  blocked :: "bool option"
  response :: "string option"
  agent_name :: "string option"

text \<open>
  \<open>run\<close> is \<open>Runner.run\<close> followed by \<open>final_output\<close>, for the wrapped agent. The third
  component of the result lists the inputs with which \<open>Runner.run\<close> was called.
\<close>

definition secure_execute ::
  "(string \<Rightarrow> string \<Rightarrow> py_error + string) \<Rightarrow> SecureAgentWrapper \<Rightarrow> string \<Rightarrow>
   (string \<rightharpoonup> string) option \<Rightarrow> execution_report \<times> SecureAgentWrapper \<times> string list" where
  "secure_execute run self user_input metadata =
     (let metadata = dict_get metadata Map.empty in
      case validate_input self user_input of
        (False, validation_message) \<Rightarrow>
          (\<lparr>success = False, error = Some validation_message, blocked = Some True,
            response = None, agent_name = None\<rparr>,
           log_interaction user_input [] metadata False self, [])
      | (True, validation_message) \<Rightarrow>
          (case run (agent self) user_input of
             Inr final_output \<Rightarrow>
               let sanitized_output = sanitize_output self final_output in
               (\<lparr>success = True, error = None, blocked = None,
                 response = Some sanitized_output, agent_name = Some (agent self)\<rparr>,
                log_interaction user_input sanitized_output metadata True self, [user_input])
           | Inl e \<Rightarrow>
               (\<lparr>success = False, error = Some (Execution_failed e), blocked = None,
                 response = None, agent_name = None\<rparr>,
                log_interaction user_input [] metadata False self, [user_input])))"

text \<open>The wrapper of the script's demonstration.\<close>

definition demo_wrapper :: SecureAgentWrapper where
  "demo_wrapper =
     \<lparr>agent = ''SecureAgent'',
      policies = \<lparr>blocked_patterns = Some [''password'', ''ssn'', ''credit card''],
                  redact_patterns = Some [''admin@company.com'', ''secret''],
                  max_input_length = Some 500\<rparr>,
      audit_log = []\<rparr>"


lemma first_blocked_None:
  "first_blocked ps u = None \<longleftrightarrow> (\<forall>p \<in> set ps. \<not> sublist (lower p) (lower u))"
  by (induction ps) (auto simp: contains_sublist)

lemma validate_input_fails_iff:
  "\<not> fst (validate_input self user_input) \<longleftrightarrow>
     (\<exists>pattern \<in> set (dict_get (blocked_patterns (policies self)) []).
         sublist (lower pattern) (lower user_input))
     \<or> int (length user_input) > dict_get (max_input_length (policies self)) 1000"
proof (cases "first_blocked (dict_get (blocked_patterns (policies self)) []) user_input")
  case None
  then show ?thesis
    using first_blocked_None [of "dict_get (blocked_patterns (policies self)) []" user_input]
    by (auto simp: validate_input_def Let_def)
next
  case (Some p)
  then show ?thesis
    using first_blocked_None [of "dict_get (blocked_patterns (policies self)) []" user_input]
    by (auto simp: validate_input_def Let_def)
qed

lemma fold_foldl_replace:
  "fold (\<lambda>pattern sanitized. replace sanitized pattern new) ps out
     = foldl (\<lambda>sanitized pattern. replace sanitized pattern new) out ps"
  by (induction ps arbitrary: out) simp_all

text \<open>
  C5. secure\_execute runs the wrapped agent only when validate\_input passes. For an
  input that contains a blocked pattern, both taken in lower case, or that is longer
  than max\_input\_length, it returns a dict with success false and blocked true and
  makes no call of Runner.run. When validation passes and the run returns, the
  response is the agent's output in which the redact patterns have been replaced by
  "[REDACTED]", one pattern after the other in the order of the policy.
\<close>

theorem secure_execute_guarded:
  "(((\<exists>pattern \<in> set (dict_get (blocked_patterns (policies self)) []).
         sublist (lower pattern) (lower user_input))
     \<or> int (length user_input) > dict_get (max_input_length (policies self)) 1000)
    \<longrightarrow> (case secure_execute run self user_input metadata of
           (report, self', calls) \<Rightarrow>
             success report = False \<and> blocked report = Some True \<and> calls = []))
   \<and> (snd (snd (secure_execute run self user_input metadata)) \<noteq> []
        \<longrightarrow> fst (validate_input self user_input))
   \<and> (fst (validate_input self user_input) \<longrightarrow>
        (\<forall>out. run (agent self) user_input = Inr out \<longrightarrow>
           (case secure_execute run self user_input metadata of
              (report, self', calls) \<Rightarrow>
                success report = True
                \<and> response report
                    = Some (foldl (\<lambda>sanitized pattern. replace sanitized pattern ''[REDACTED]'')
                              out (dict_get (redact_patterns (policies self)) []))
                \<and> calls = [user_input])))"
proof -
  obtain ok msg where v: "validate_input self user_input = (ok, msg)"
    by (cases "validate_input self user_input")
  have blocked_case: "secure_execute run self user_input metadata =
          (\<lparr>success = False, error = Some msg, blocked = Some True,
            response = None, agent_name = None\<rparr>,
           log_interaction user_input [] (dict_get metadata Map.empty) False self, [])"
    if "\<not> ok"
    using that v by (simp add: secure_execute_def)
  have passed_case: "secure_execute run self user_input metadata =
          (\<lparr>success = True, error = None, blocked = None,
            response = Some (sanitize_output self out), agent_name = Some (agent self)\<rparr>,
           log_interaction user_input (sanitize_output self out) (dict_get metadata Map.empty)
             True self, [user_input])"
    if "ok" "run (agent self) user_input = Inr out" for out
    using that v by (simp add: secure_execute_def Let_def)
  have fails: "\<not> ok \<longleftrightarrow>
     (\<exists>pattern \<in> set (dict_get (blocked_patterns (policies self)) []).
         sublist (lower pattern) (lower user_input))
     \<or> int (length user_input) > dict_get (max_input_length (policies self)) 1000"
    using validate_input_fails_iff [of self user_input] v by simp
  have sanitized: "sanitize_output self out
      = foldl (\<lambda>sanitized pattern. replace sanitized pattern ''[REDACTED]'')
              out (dict_get (redact_patterns (policies self)) [])" for out
    by (simp add: sanitize_output_def fold_foldl_replace)
  show ?thesis
  proof (cases ok)
    case True
    then show ?thesis
      using fails passed_case v by (auto simp: sanitized)
  next
    case False
    then show ?thesis
      using fails blocked_case v by auto
  qed
qed

lemma lower_password: "lower ''My PASSWORD is 1234'' = ''my password is 1234''"
  by (simp add: lower_def lower_char_def code_point_def char_of_def bit_0)

lemma lower_lowercase:
  "lower ''password'' = ''password''" "lower ''ssn'' = ''ssn''"
  "lower ''credit card'' = ''credit card''"
  by (simp_all add: lower_def lower_char_def code_point_def)

lemma lower_Hi: "lower ''Hi'' = ''hi''"
  by (simp add: lower_def lower_char_def code_point_def char_of_def bit_0)

theorem secure_execute_guarded_witness:
  "secure_execute (\<lambda>a p. Inr ''never produced'') demo_wrapper ''My PASSWORD is 1234'' None
     = (\<lparr>success = False, error = Some (Input_contains_blocked_pattern ''password''),
         blocked = Some True, response = None, agent_name = None\<rparr>,
        demo_wrapper\<lparr>audit_log :=
          [\<lparr>logged_input = ''My PASSWORD is 1234'', logged_output = [],
            logged_metadata = Map.empty, logged_success = False\<rparr>]\<rparr>,
        [])
   \<and> secure_execute (\<lambda>a p. Inr ''mail admin@company.com, the secret code'') demo_wrapper
        ''Hi'' None
     = (\<lparr>success = True, error = None, blocked = None,
         response = Some ''mail [REDACTED], the [REDACTED] code'',
         agent_name = Some ''SecureAgent''\<rparr>,
        demo_wrapper\<lparr>audit_log :=
          [\<lparr>logged_input = ''Hi'', logged_output = ''mail [REDACTED], the [REDACTED] code'',
            logged_metadata = Map.empty, logged_success = True\<rparr>]\<rparr>,
        [''Hi''])"
proof -
  have hit: "\<exists>pattern \<in> set (dict_get (blocked_patterns (policies demo_wrapper)) []).
         sublist (lower pattern) (lower ''My PASSWORD is 1234'')"
    by (simp add: demo_wrapper_def dict_get_def lower_password lower_lowercase
          contains_sublist [symmetric])
  have v1: "validate_input demo_wrapper ''My PASSWORD is 1234''
              = (False, Input_contains_blocked_pattern ''password'')"
    by (simp add: validate_input_def demo_wrapper_def dict_get_def lower_password lower_lowercase)
  have r1: "secure_execute (\<lambda>a p. Inr ''never produced'') demo_wrapper ''My PASSWORD is 1234'' None
     = (\<lparr>success = False, error = Some (Input_contains_blocked_pattern ''password''),
         blocked = Some True, response = None, agent_name = None\<rparr>,
        demo_wrapper\<lparr>audit_log :=
          [\<lparr>logged_input = ''My PASSWORD is 1234'', logged_output = [],
            logged_metadata = Map.empty, logged_success = False\<rparr>]\<rparr>,
        [])"
    by (simp add: secure_execute_def v1 Let_def log_interaction_def dict_get_def)
       (simp add: demo_wrapper_def)
  have v2: "validate_input demo_wrapper ''Hi'' = (True, Input_validated)"
    by (simp add: validate_input_def demo_wrapper_def dict_get_def lower_lowercase lower_Hi)
  have s2: "sanitize_output demo_wrapper ''mail admin@company.com, the secret code''
              = ''mail [REDACTED], the [REDACTED] code''"
    by (simp add: sanitize_output_def demo_wrapper_def dict_get_def replace_def)
  have r2: "secure_execute (\<lambda>a p. Inr ''mail admin@company.com, the secret code'') demo_wrapper
        ''Hi'' None
     = (\<lparr>success = True, error = None, blocked = None,
         response = Some ''mail [REDACTED], the [REDACTED] code'',
         agent_name = Some ''SecureAgent''\<rparr>,
        demo_wrapper\<lparr>audit_log :=
          [\<lparr>logged_input = ''Hi'', logged_output = ''mail [REDACTED], the [REDACTED] code'',
            logged_metadata = Map.empty, logged_success = True\<rparr>]\<rparr>,
        [''Hi''])"
    by (simp add: secure_execute_def v2 s2 Let_def log_interaction_def dict_get_def)
       (simp add: demo_wrapper_def)
  from hit secure_execute_guarded [of demo_wrapper "''My PASSWORD is 1234''"
      "\<lambda>a p. Inr ''never produced''" None] r1 r2
  show ?thesis by simp
qed

section \<open>AdvancedInputValidator.validate\_input\_length\<close>

text \<open>
  Whitespace for \<open>str.split()\<close> on code points below 256: tab to carriage return,
  the four separators 28 to 31, the space, NEL (133) and the no-break space (160).
\<close>

definition is_space :: "char \<Rightarrow> bool" where
  "is_space c =
     (let n = code_point c in
      (9 \<le> n \<and> n \<le> 13) \<or> (28 \<le> n \<and> n \<le> 32) \<or> n = 133 \<or> n = 160)"

text \<open>
  \<open>s.split()\<close>: the words between runs of whitespace, none of them empty.
  \<open>word\<close> holds the characters of the word being read.
\<close>

fun split_words :: "string \<Rightarrow> string \<Rightarrow> string list" where
  "split_words word [] = (if word = [] then [] else [word])"
| "split_words word (c # cs) =
     (if is_space c then (if word = [] then split_words [] cs else word # split_words [] cs)
      else split_words (word @ [c]) cs)"

definition split :: "string \<Rightarrow> string list" where
  "split s = split_words [] s"

text \<open>
  The order of \<open>str\<close>: the first position where two strings differ decides, by code
  point; a proper prefix is smaller. \<open>max(a, b)\<close> keeps \<open>a\<close> unless \<open>b\<close> is greater.
\<close>

fun str_less :: "string \<Rightarrow> string \<Rightarrow> bool" where
  "str_less [] [] = False"
| "str_less [] (y # ys) = True"
| "str_less (x # xs) [] = False"
| "str_less (x # xs) (y # ys) =
     (code_point x < code_point y \<or> (x = y \<and> str_less xs ys))"

definition str_max :: "string \<Rightarrow> string \<Rightarrow> string" where
  "str_max a b = (if str_less a b then b else a)"

text \<open>
  \<^verbatim>\<open>
  violations = []
  risk_level = "low"
  if char_count > 10000:
      violations.append("Input exceeds maximum character limit")
      risk_level = "high"
  elif char_count > 5000:
      violations.append("Input is unusually long")
      risk_level = "medium"
  \<close>
\<close>

definition char_count_check :: "nat \<Rightarrow> string list \<times> string" where
  "char_count_check char_count =
     (if char_count > 10000 then ([''Input exceeds maximum character limit''], ''high'')
      else if char_count > 5000 then ([''Input is unusually long''], ''medium'')
      else ([], ''low''))"

text \<open>
  \<^verbatim>\<open>
  if word_count > 2000:
      violations.append("Input exceeds maximum word limit")
      risk_level = max(risk_level, "medium")
  \<close>
  The sources end here; the model returns the two locals, \<open>violations\<close> (here
  \<open>found\<close>) and \<open>risk_level\<close> (here \<open>risk\<close>).
\<close>

definition validate_input_length :: "string \<Rightarrow> string list \<times> string" where
  "validate_input_length input_text =
     (let word_count = length (split input_text);
          char_count = length input_text
      in case char_count_check char_count of
           (found, risk) \<Rightarrow>
             if word_count > 2000
             then (found @ [''Input exceeds maximum word limit''], str_max risk ''medium'')
             else (found, risk))"

lemma split_words_word:
  "split_words [] (''aaaa '' @ rest) = ''aaaa'' # split_words [] rest"
  by (simp add: is_space_def code_point_def)

lemma split_repeated: "split (concat (replicate n ''aaaa '')) = replicate n ''aaaa''"
  unfolding split_def
  by (induction n) (simp_all add: split_words_word del: split_words.simps append.simps, simp)

lemma length_repeated: "length (concat (replicate n ''aaaa '')) = 5 * n"
  by (induction n) simp_all

lemma str_max_high_medium: "str_max ''high'' ''medium'' = ''medium''"
  by (simp add: str_max_def code_point_def)

text \<open>
  C8. The risk level after the word-count check is to be at least as severe as the
  one the character-count check assigns, in the order low, medium, high. For the
  text made of 2001 times "aaaa " (10005 characters, 2001 words) the character
  count gives "high" and the word-count check lowers it to "medium":
  \<open>max("high", "medium")\<close> compares the strings, and "medium" is the greater string.
\<close>

theorem validate_input_length_lowers_risk:
  "validate_input_length (concat (replicate 2001 ''aaaa ''))
     = ([''Input exceeds maximum character limit'', ''Input exceeds maximum word limit''],
        ''medium'')
   \<and> char_count_check (length (concat (replicate 2001 ''aaaa '')))
     = ([''Input exceeds maximum character limit''], ''high'')
   \<and> risk_hierarchy ''medium'' = Inr 1 \<and> risk_hierarchy ''high'' = Inr 2"
  by (simp add: validate_input_length_def split_repeated length_repeated char_count_check_def
        str_max_high_medium risk_hierarchy_def)

section \<open>Regular expressions of the \<open>re\<close> module\<close>

text \<open>
  The patterns of the scripts are sequences of character classes with a repetition
  count, of the anchors \<open>^\<close> and \<open>$\<close> and of the word boundary \<open>\b\<close>. A class is a
  list of ranges of code points, both ends included. A repetition is greedy: it
  takes as many characters as it can and gives them back one by one while the rest
  of the pattern does not match.
\<close>

type_synonym char_class = "(nat \<times> nat) list"

definition in_class :: "char_class \<Rightarrow> char \<Rightarrow> bool" where
  "in_class cls c = list_ex (\<lambda>(lo, hi). lo \<le> code_point c \<and> code_point c \<le> hi) cls"

datatype item =
    Rep char_class nat "nat option"
  | Word_boundary
  | Line_start
  | Line_end

text \<open>The classes \<open>\d\<close>, \<open>\s\<close> and \<open>\w\<close> of a \<open>str\<close> pattern, on code points below 256.\<close>

definition digit :: char_class where
  "digit = [(48, 57)]"

definition whitespace :: char_class where
  "whitespace = [(9, 13), (28, 32), (133, 133), (160, 160)]"

definition word_char :: char_class where
  "word_char = [(48, 57), (65, 90), (95, 95), (97, 122), (170, 170), (178, 179), (181, 181),
                (185, 186), (188, 190), (192, 214), (216, 246), (248, 255)]"

definition is_word :: "char option \<Rightarrow> bool" where
  "is_word c = (case c of None \<Rightarrow> False | Some ch \<Rightarrow> in_class word_char ch)"

text \<open>The character before the position reached after reading \<open>read\<close>.\<close>

definition last_of :: "char option \<Rightarrow> string \<Rightarrow> char option" where
  "last_of prev read = (if read = [] then prev else Some (last read))"

definition next_of :: "string \<Rightarrow> char option" where
  "next_of s = (case s of [] \<Rightarrow> None | c # cs \<Rightarrow> Some c)"

fun first_some :: "(nat \<Rightarrow> nat option) \<Rightarrow> nat list \<Rightarrow> nat option" where
  "first_some f [] = None"
| "first_some f (k # ks) = (case f k of Some r \<Rightarrow> Some r | None \<Rightarrow> first_some f ks)"

text \<open>
  \<open>match_here items prev s\<close>: the match of the pattern that starts at the position
  with \<open>prev\<close> before it (\<open>None\<close> at the start of the string) and \<open>s\<close> from it on; the
  result is the number of characters of the match that the engine finds first.
  \<open>$\<close> holds at the end of the string and before a newline that ends the string.
\<close>

fun match_here :: "item list \<Rightarrow> char option \<Rightarrow> string \<Rightarrow> nat option" where
  "match_here [] prev s = Some 0"
| "match_here (Rep cls lo hi # items) prev s =
     (let available = length (takeWhile (in_class cls) s);
          most = (case hi of None \<Rightarrow> available | Some h \<Rightarrow> min h available)
      in first_some
           (\<lambda>k. map_option (\<lambda>m. k + m) (match_here items (last_of prev (take k s)) (drop k s)))
           (rev [lo..<Suc most]))"
| "match_here (Word_boundary # items) prev s =
     (if is_word prev \<noteq> is_word (next_of s) then match_here items prev s else None)"
| "match_here (Line_start # items) prev s =
     (if prev = None then match_here items prev s else None)"
| "match_here (Line_end # items) prev s =
     (if s = [] \<or> s = [newline] then match_here items prev s else None)"

text \<open>\<open>re.match(pattern, s)\<close> as a truth value: a match that starts at the start of \<open>s\<close>.\<close>

definition re_match :: "item list \<Rightarrow> string \<Rightarrow> bool" where
  "re_match pattern s = (match_here pattern None s \<noteq> None)"

text \<open>
  \<open>re.sub(pattern, repl, s)\<close>: the string is read from the left; where the pattern
  matches, the match is replaced and reading goes on behind it; elsewhere the
  character is kept.
\<close>

fun sub_from :: "item list \<Rightarrow> string \<Rightarrow> char option \<Rightarrow> string \<Rightarrow> string" where
  "sub_from pattern repl prev [] =
     (case match_here pattern prev [] of None \<Rightarrow> [] | Some n \<Rightarrow> repl)"
| "sub_from pattern repl prev (c # cs) =
     (case match_here pattern prev (c # cs) of
        None \<Rightarrow> c # sub_from pattern repl (Some c) cs
      | Some 0 \<Rightarrow> repl @ c # sub_from pattern repl (Some c) cs
      | Some (Suc k) \<Rightarrow>
          repl @ sub_from pattern repl (last_of (Some c) (take k cs)) (drop k cs))"

definition re_sub :: "item list \<Rightarrow> string \<Rightarrow> string \<Rightarrow> string" where
  "re_sub pattern repl s = sub_from pattern repl None s"

section \<open>validate\_email\<close>

text \<open>
  \<^verbatim>\<open>
  pattern = r'^[a-zA-Z0-9._%+-]+@[a-zA-Z0-9.-]+\.[a-zA-Z]{2,}$'
  is_valid = bool(re.match(pattern, email))
  return {"is_valid_format": is_valid, "email": email}
  \<close>
\<close>

definition letters :: char_class where
  "letters = [(97, 122), (65, 90)]"

definition local_part :: char_class where
  "local_part = [(97, 122), (65, 90), (48, 57), (46, 46), (95, 95), (37, 37), (43, 43), (45, 45)]"

definition domain_part :: char_class where
  "domain_part = [(97, 122), (65, 90), (48, 57), (46, 46), (45, 45)]"

definition email_pattern :: "item list" where
  "email_pattern =
     [Line_start, Rep local_part 1 None, Rep [(64, 64)] 1 (Some 1), Rep domain_part 1 None,
      Rep [(46, 46)] 1 (Some 1), Rep letters 2 None, Line_end]"

record email_report =
  is_valid_format :: bool
  email :: string

definition validate_email :: "string \<Rightarrow> email_report" where
  "validate_email address =
     (let is_valid = re_match email_pattern address
      in \<lparr>is_valid_format = is_valid, email = address\<rparr>)"

text \<open>
  The form that the pattern describes: a local part, \<open>@\<close>, a domain, a dot and a
  top-level domain of at least two letters, and nothing else.
\<close>

definition spec_email_form :: "string \<Rightarrow> bool" where
  "spec_email_form s \<longleftrightarrow>
     (\<exists>local domain tld.
        s = local @ ''@'' @ domain @ ''.'' @ tld
        \<and> local \<noteq> [] \<and> (\<forall>c \<in> set local. in_class local_part c)
        \<and> domain \<noteq> [] \<and> (\<forall>c \<in> set domain. in_class domain_part c)
        \<and> 2 \<le> length tld \<and> (\<forall>c \<in> set tld. in_class letters c))"

lemma spec_email_form_last:
  assumes "spec_email_form s"
  shows "in_class letters (last s)"
proof -
  from assms obtain local domain tld where
    s: "s = local @ ''@'' @ domain @ ''.'' @ tld" and
    tld: "2 \<le> length tld" "\<forall>c \<in> set tld. in_class letters c"
    unfolding spec_email_form_def by blast
  from tld have "tld \<noteq> []" by auto
  then have "last s = last tld" by (simp add: s)
  with tld \<open>tld \<noteq> []\<close> show ?thesis by (metis last_in_set)
qed

lemma match_trailing_newline: "re_match email_pattern (''a@b.co'' @ [newline]) = True"
  by code_simp

text \<open>
  C9. validate\_email returns the input unchanged as "email", and "is\_valid\_format" is to
  be true exactly when the whole string has the form local-part@domain.tld with a
  top-level domain of at least two letters. For "a@b.co" followed by a newline the
  code reports a valid format, although the string does not have that form: \<open>$\<close>
  also matches before a newline that ends the string.
\<close>

theorem validate_email_accepts_trailing_newline:
  "validate_email (''a@b.co'' @ [newline])
     = \<lparr>is_valid_format = True, email = ''a@b.co'' @ [newline]\<rparr>
   \<and> \<not> spec_email_form (''a@b.co'' @ [newline])"
proof -
  have "\<not> in_class letters (last (''a@b.co'' @ [newline]))"
    by (simp add: in_class_def letters_def newline_def code_point_def)
  then have "\<not> spec_email_form (''a@b.co'' @ [newline])"
    using spec_email_form_last by blast
  then show ?thesis
    using match_trailing_newline by (simp add: validate_email_def)
qed

theorem validate_email_accepts_trailing_newline_witness:
  "spec_email_form ''a@b.co''
   \<and> is_valid_format (validate_email ''a@b.co'')
   \<and> is_valid_format (validate_email (''a@b.co'' @ [newline]))
   \<and> \<not> spec_email_form (''a@b.co'' @ [newline])"
proof -
  have "''a@b.co'' = ''a'' @ ''@'' @ ''b'' @ ''.'' @ ''co''
        \<and> ''a'' \<noteq> [] \<and> (\<forall>c \<in> set ''a''. in_class local_part c)
        \<and> ''b'' \<noteq> [] \<and> (\<forall>c \<in> set ''b''. in_class domain_part c)
        \<and> 2 \<le> length ''co'' \<and> (\<forall>c \<in> set ''co''. in_class letters c)"
    by (simp add: in_class_def local_part_def domain_part_def letters_def code_point_def)
  then have form: "spec_email_form ''a@b.co''"
    unfolding spec_email_form_def by blast
  have accepted: "re_match email_pattern ''a@b.co'' = True"
    by code_simp
  from validate_email_accepts_trailing_newline form accepted show ?thesis
    by (simp add: validate_email_def)
qed

lemma first_some_None_iff: "first_some f ks = None \<longleftrightarrow> (\<forall>k \<in> set ks. f k = None)"
  by (induction ks) (auto split: option.splits)

lemma first_some_SomeI: "k \<in> set ks \<Longrightarrow> f k \<noteq> None \<Longrightarrow> first_some f ks \<noteq> None"
  by (simp add: first_some_None_iff) blast

lemma length_takeWhile_ge:
  "k \<le> length (takeWhile P s) \<longleftrightarrow> k \<le> length s \<and> (\<forall>c \<in> set (take k s). P c)"
proof (induction s arbitrary: k)
  case Nil
  show ?case by simp
next
  case (Cons a s)
  show ?case
  proof (cases k)
    case 0
    then show ?thesis by simp
  next
    case (Suc j)
    then show ?thesis using Cons [of j] by auto
  qed
qed

lemma match_here_Rep_iff:
  "match_here (Rep cls lo hi # items) prev s \<noteq> None \<longleftrightarrow>
     (\<exists>u v. s = u @ v \<and> lo \<le> length u
        \<and> (case hi of None \<Rightarrow> True | Some h \<Rightarrow> length u \<le> h)
        \<and> (\<forall>c \<in> set u. in_class cls c)
        \<and> match_here items (last_of prev u) v \<noteq> None)"
  (is "?lhs \<longleftrightarrow> ?rhs")
proof
  assume ?lhs
  then obtain k where k: "lo \<le> k"
      "k \<le> (case hi of None \<Rightarrow> length (takeWhile (in_class cls) s)
                | Some h \<Rightarrow> min h (length (takeWhile (in_class cls) s)))"
      "match_here items (last_of prev (take k s)) (drop k s) \<noteq> None"
    by (auto simp: first_some_None_iff Let_def)
  from k(2) have len: "k \<le> length (takeWhile (in_class cls) s)"
    and hi: "(case hi of None \<Rightarrow> True | Some h \<Rightarrow> k \<le> h)"
    by (auto split: option.splits)
  from len have "k \<le> length s" "\<forall>c \<in> set (take k s). in_class cls c"
    by (simp_all add: length_takeWhile_ge)
  with k hi have "s = take k s @ drop k s \<and> lo \<le> length (take k s)
        \<and> (case hi of None \<Rightarrow> True | Some h \<Rightarrow> length (take k s) \<le> h)
        \<and> (\<forall>c \<in> set (take k s). in_class cls c)
        \<and> match_here items (last_of prev (take k s)) (drop k s) \<noteq> None"
    by (auto simp: min_absorb2 split: option.splits)
  then show ?rhs by blast
next
  assume ?rhs
  then obtain u v where uv: "s = u @ v" "lo \<le> length u"
      "(case hi of None \<Rightarrow> True | Some h \<Rightarrow> length u \<le> h)"
      "\<forall>c \<in> set u. in_class cls c"
      "match_here items (last_of prev u) v \<noteq> None"
    by blast
  let ?k = "length u"
  have "?k \<le> length (takeWhile (in_class cls) s)"
    using uv(1,4) by (simp add: length_takeWhile_ge)
  with uv(2,3) have "?k \<in> set (rev [lo..<Suc (case hi of None \<Rightarrow> length (takeWhile (in_class cls) s)
                | Some h \<Rightarrow> min h (length (takeWhile (in_class cls) s)))])"
    by (auto split: option.splits)
  moreover have "map_option (\<lambda>m. ?k + m) (match_here items (last_of prev (take ?k s)) (drop ?k s)) \<noteq> None"
    using uv(1,5) by simp
  ultimately have "first_some
           (\<lambda>k. map_option (\<lambda>m. k + m) (match_here items (last_of prev (take k s)) (drop k s)))
           (rev [lo..<Suc (case hi of None \<Rightarrow> length (takeWhile (in_class cls) s)
                | Some h \<Rightarrow> min h (length (takeWhile (in_class cls) s)))]) \<noteq> None"
    by (rule first_some_SomeI)
  then show ?lhs unfolding match_here.simps Let_def .
qed

lemma class_single: "in_class [(n, n)] c \<longleftrightarrow> code_point c = n"
  by (auto simp: in_class_def)

lemma code_point_eq: "code_point c = code_point a \<longleftrightarrow> c = a"
  by (simp add: code_point_def)

lemma match_here_char_iff:
  "match_here (Rep [(code_point a, code_point a)] 1 (Some 1) # items) prev s \<noteq> None \<longleftrightarrow>
     (\<exists>v. s = a # v \<and> match_here items (Some a) v \<noteq> None)"
  (is "?lhs \<longleftrightarrow> ?rhs")
proof
  assume ?lhs
  then obtain u v where uv: "s = u @ v" "1 \<le> length u" "length u \<le> 1"
      "\<forall>c \<in> set u. in_class [(code_point a, code_point a)] c"
      "match_here items (last_of prev u) v \<noteq> None"
    unfolding match_here_Rep_iff by auto
  from uv(2,3) obtain c where "u = [c]" by (cases u) auto
  with uv(4) have "u = [a]" by (simp add: class_single code_point_eq)
  with uv(1,5) show ?rhs by (simp add: last_of_def)
next
  assume ?rhs
  then obtain v where "s = [a] @ v" "match_here items (last_of prev [a]) v \<noteq> None"
    by (auto simp: last_of_def)
  then show ?lhs
    unfolding match_here_Rep_iff by (intro exI [of _ "[a]"] exI [of _ v]) (simp add: class_single)
qed

lemma single_char:
  "Suc 0 \<le> length u \<and> length u \<le> Suc 0
     \<and> Ball (set u) (in_class [(code_point a, code_point a)]) \<and> Q
   \<longleftrightarrow> u = [a] \<and> Q"
  by (cases u) (auto simp: class_single code_point_eq)

lemma match_here_start: "match_here (Line_start # items) None s = match_here items None s"
  by simp

lemma match_here_end: "match_here [Line_end] prev s \<noteq> None \<longleftrightarrow> s = [] \<or> s = [newline]"
  by simp

lemma re_match_email_split:
  "re_match email_pattern s \<longleftrightarrow>
     (\<exists>local domain tld rest.
        s = local @ ''@'' @ domain @ ''.'' @ tld @ rest
        \<and> local \<noteq> [] \<and> (\<forall>c \<in> set local. in_class local_part c)
        \<and> domain \<noteq> [] \<and> (\<forall>c \<in> set domain. in_class domain_part c)
        \<and> 2 \<le> length tld \<and> (\<forall>c \<in> set tld. in_class letters c)
        \<and> (rest = [] \<or> rest = [newline]))"
  (is "?lhs \<longleftrightarrow> ?rhs")
proof -
  have at: "64 = code_point CHR ''@''" and dot: "46 = code_point CHR ''.''"
    by (simp_all add: code_point_def)
  have "?lhs \<longleftrightarrow>
     (\<exists>u1 v1. s = u1 @ v1 \<and> 1 \<le> length u1 \<and> (\<forall>c \<in> set u1. in_class local_part c) \<and>
       (\<exists>v2. v1 = CHR ''@'' # v2 \<and>
         (\<exists>u3 v3. v2 = u3 @ v3 \<and> 1 \<le> length u3 \<and> (\<forall>c \<in> set u3. in_class domain_part c) \<and>
           (\<exists>v4. v3 = CHR ''.'' # v4 \<and>
             (\<exists>u5 v5. v4 = u5 @ v5 \<and> 2 \<le> length u5 \<and> (\<forall>c \<in> set u5. in_class letters c) \<and>
                (v5 = [] \<or> v5 = [newline]))))))"
    unfolding re_match_def email_pattern_def match_here_start at dot
      match_here_Rep_iff match_here_end
    by (simp add: single_char)
  also have "\<dots> \<longleftrightarrow> ?rhs" (is "?mid \<longleftrightarrow> _")
  proof
    assume ?mid
    then show ?rhs by (auto simp: Suc_le_eq)
  next
    assume ?rhs
    then obtain local domain tld rest where
      s: "s = local @ ''@'' @ domain @ ''.'' @ tld @ rest" and
      l: "local \<noteq> []" "\<forall>c \<in> set local. in_class local_part c" and
      d: "domain \<noteq> []" "\<forall>c \<in> set domain. in_class domain_part c" and
      t: "2 \<le> length tld" "\<forall>c \<in> set tld. in_class letters c" and
      r: "rest = [] \<or> rest = [newline]"
      by blast
    from t r have 5: "\<exists>u5 v5. tld @ rest = u5 @ v5 \<and> 2 \<le> length u5
        \<and> (\<forall>c \<in> set u5. in_class letters c) \<and> (v5 = [] \<or> v5 = [newline])"
      by blast
    from d 5 have 3: "\<exists>u3 v3. domain @ ''.'' @ tld @ rest = u3 @ v3 \<and> 1 \<le> length u3
        \<and> (\<forall>c \<in> set u3. in_class domain_part c)
        \<and> (\<exists>v4. v3 = CHR ''.'' # v4 \<and>
             (\<exists>u5 v5. v4 = u5 @ v5 \<and> 2 \<le> length u5 \<and> (\<forall>c \<in> set u5. in_class letters c) \<and>
                (v5 = [] \<or> v5 = [newline])))"
      by (intro exI [of _ domain] exI [of _ "''.'' @ tld @ rest"]) (simp add: Suc_le_eq)
    from l 3 show ?mid
      unfolding s
      by (intro exI [of _ local] exI [of _ "''@'' @ domain @ ''.'' @ tld @ rest"])
         (simp add: Suc_le_eq)
  qed
  finally show ?thesis .
qed

text \<open>
  What the pattern accepts: the strings of that form, and those strings followed by
  one newline.
\<close>

lemma validate_email_characterised:
  "is_valid_format (validate_email s) \<longleftrightarrow>
     spec_email_form s \<or> (\<exists>t. s = t @ [newline] \<and> spec_email_form t)"
  (is "?lhs \<longleftrightarrow> ?rhs")
proof
  assume ?lhs
  then have "re_match email_pattern s" by (simp add: validate_email_def)
  then obtain local domain tld rest where
    s: "s = local @ ''@'' @ domain @ ''.'' @ tld @ rest" and
    parts: "local \<noteq> []" "\<forall>c \<in> set local. in_class local_part c"
      "domain \<noteq> []" "\<forall>c \<in> set domain. in_class domain_part c"
      "2 \<le> length tld" "\<forall>c \<in> set tld. in_class letters c" and
    r: "rest = [] \<or> rest = [newline]"
    unfolding re_match_email_split by blast
  from parts have form: "spec_email_form (local @ ''@'' @ domain @ ''.'' @ tld)"
    unfolding spec_email_form_def by blast
  from r show ?rhs
  proof
    assume "rest = []"
    with s form show ?rhs by simp
  next
    assume "rest = [newline]"
    with s have "s = (local @ ''@'' @ domain @ ''.'' @ tld) @ [newline]" by simp
    with form show ?rhs by blast
  qed
next
  assume ?rhs
  then obtain t rest where t: "s = t @ rest" "spec_email_form t" "rest = [] \<or> rest = [newline]"
    by auto
  from t(2) obtain local domain tld where
    "t = local @ ''@'' @ domain @ ''.'' @ tld"
    "local \<noteq> []" "\<forall>c \<in> set local. in_class local_part c"
    "domain \<noteq> []" "\<forall>c \<in> set domain. in_class domain_part c"
    "2 \<le> length tld" "\<forall>c \<in> set tld. in_class letters c"
    unfolding spec_email_form_def by blast
  with t(1,3) have "\<exists>local domain tld rest.
        s = local @ ''@'' @ domain @ ''.'' @ tld @ rest
        \<and> local \<noteq> [] \<and> (\<forall>c \<in> set local. in_class local_part c)
        \<and> domain \<noteq> [] \<and> (\<forall>c \<in> set domain. in_class domain_part c)
        \<and> 2 \<le> length tld \<and> (\<forall>c \<in> set tld. in_class letters c)
        \<and> (rest = [] \<or> rest = [newline])"
    by (intro exI [of _ local] exI [of _ domain] exI [of _ tld] exI [of _ rest]) simp
  then have "re_match email_pattern s" unfolding re_match_email_split .
  then show ?lhs by (simp add: validate_email_def)
qed

section \<open>filter\_sensitive\_data\<close>

text \<open>
  \<^verbatim>\<open>
  content = re.sub(r"\b\d{4}[-\s]?\d{4}[-\s]?\d{4}[-\s]?\d{4}\b", "[CARD-REDACTED]", content)
  content = re.sub(r"\b\d{3}-\d{2}-\d{4}\b", "[SSN-REDACTED]", content)
  content = re.sub(r"\b\d{3}-\d{3}-\d{4}\b", "[PHONE-REDACTED]", content)
  content = re.sub(r"\b[A-Za-z0-9._%+-]+@[A-Za-z0-9.-]+\.[A-Z|a-z]{2,}\b",
                   "[EMAIL-REDACTED]", content)
  \<close>
  None of the four patterns matches the empty string.
\<close>

definition card_pattern :: "item list" where
  "card_pattern =
     [Word_boundary, Rep digit 4 (Some 4), Rep ((45, 45) # whitespace) 0 (Some 1),
      Rep digit 4 (Some 4), Rep ((45, 45) # whitespace) 0 (Some 1),
      Rep digit 4 (Some 4), Rep ((45, 45) # whitespace) 0 (Some 1),
      Rep digit 4 (Some 4), Word_boundary]"

definition ssn_pattern :: "item list" where
  "ssn_pattern =
     [Word_boundary, Rep digit 3 (Some 3), Rep [(45, 45)] 1 (Some 1), Rep digit 2 (Some 2),
      Rep [(45, 45)] 1 (Some 1), Rep digit 4 (Some 4), Word_boundary]"

definition phone_pattern :: "item list" where
  "phone_pattern =
     [Word_boundary, Rep digit 3 (Some 3), Rep [(45, 45)] 1 (Some 1), Rep digit 3 (Some 3),
      Rep [(45, 45)] 1 (Some 1), Rep digit 4 (Some 4), Word_boundary]"

definition address_pattern :: "item list" where
  "address_pattern =
     [Word_boundary,
      Rep [(65, 90), (97, 122), (48, 57), (46, 46), (95, 95), (37, 37), (43, 43), (45, 45)] 1 None,
      Rep [(64, 64)] 1 (Some 1),
      Rep [(65, 90), (97, 122), (48, 57), (46, 46), (45, 45)] 1 None,
      Rep [(46, 46)] 1 (Some 1),
      Rep [(65, 90), (124, 124), (97, 122)] 2 None,
      Word_boundary]"

definition redact :: "string \<Rightarrow> string" where
  "redact content =
     re_sub address_pattern ''[EMAIL-REDACTED]''
       (re_sub phone_pattern ''[PHONE-REDACTED]''
          (re_sub ssn_pattern ''[SSN-REDACTED]''
             (re_sub card_pattern ''[CARD-REDACTED]'' content)))"

text \<open>
  A message is a dict from keys to values of any type. \<open>message["content"]\<close> raises
  KeyError for a message without that key, and \<open>re.sub\<close> raises TypeError for a
  content that is not a string.
\<close>

datatype py_value = PyStr string | PyInt int | PyNone | PyList "py_value list"

type_synonym chat_message = "string \<rightharpoonup> py_value"

definition filter_message :: "chat_message \<Rightarrow> py_error + chat_message" where
  "filter_message message =
     (if message ''role'' = Some (PyStr ''user'') then
        (case message ''content'' of
           None \<Rightarrow> Inl (KeyError ''content'')
         | Some (PyStr content) \<Rightarrow> Inr (message(''content'' \<mapsto> PyStr (redact content)))
         | Some other \<Rightarrow> Inl TypeError)
      else Inr message)"

fun filter_loop :: "chat_message list \<Rightarrow> chat_message list \<Rightarrow> py_error + chat_message list" where
  "filter_loop [] filtered_history = Inr filtered_history"
| "filter_loop (message # rest) filtered_history =
     (case filter_message message of
        Inl e \<Rightarrow> Inl e
      | Inr filtered_message \<Rightarrow> filter_loop rest (filtered_history @ [filtered_message]))"

definition filter_sensitive_data :: "chat_message list \<Rightarrow> py_error + chat_message list" where
  "filter_sensitive_data conversation_history = filter_loop conversation_history []"

text \<open>A user message with a card number and an assistant message that repeats it.\<close>

definition demo_history :: "chat_message list" where
  "demo_history =
     [[''role'' \<mapsto> PyStr ''user'', ''content'' \<mapsto> PyStr ''card 4111-1111-1111-1111, ssn 123-45-6789''],
      [''role'' \<mapsto> PyStr ''assistant'', ''content'' \<mapsto> PyStr ''noted 4111-1111-1111-1111'']]"

text \<open>The message that the loop puts in the place of a message it accepts.\<close>

definition filtered :: "chat_message \<Rightarrow> chat_message" where
  "filtered m =
     (case (m ''role'', m ''content'') of
        (Some (PyStr r), Some (PyStr c)) \<Rightarrow>
          if r = ''user'' then m(''content'' \<mapsto> PyStr (redact c)) else m
      | other \<Rightarrow> m)"

definition well_formed :: "chat_message \<Rightarrow> bool" where
  "well_formed m \<longleftrightarrow>
     (m ''role'' = Some (PyStr ''user'') \<longrightarrow> (\<exists>c. m ''content'' = Some (PyStr c)))"

lemma filter_message_well_formed: "well_formed m \<Longrightarrow> filter_message m = Inr (filtered m)"
  by (auto simp: well_formed_def filter_message_def filtered_def
           split: option.splits py_value.splits)

lemma filter_loop_well_formed:
  "\<forall>m \<in> set history. well_formed m \<Longrightarrow>
     filter_loop history acc = Inr (acc @ map filtered history)"
  by (induction history arbitrary: acc) (simp_all add: filter_message_well_formed)

text \<open>
  C6, as stated, fails: a user message without a content makes the function raise
  KeyError, and no list is returned.
\<close>

theorem filter_sensitive_data_missing_content:
  "filter_sensitive_data [[''role'' \<mapsto> PyStr ''user'']] = Inl (KeyError ''content'')"
  by (simp add: filter_sensitive_data_def filter_message_def)

text \<open>
  C6, amended. For every conversation history in which each message of role "user"
  has a content that is a string, filter\_sensitive\_data returns a list of the same
  length in the same order; a message whose role is not "user" is unchanged; a user
  message is unchanged except its content, which is the old content after the four
  substitutions, card, SSN, phone and email, in this order.
\<close>

theorem filter_sensitive_data_frame:
  assumes "\<forall>m \<in> set history.
             m ''role'' = Some (PyStr ''user'') \<longrightarrow> (\<exists>c. m ''content'' = Some (PyStr c))"
  shows "\<exists>out. filter_sensitive_data history = Inr out
           \<and> length out = length history
           \<and> (\<forall>i < length history.
                 (history ! i) ''role'' \<noteq> Some (PyStr ''user'') \<longrightarrow> out ! i = history ! i)
           \<and> (\<forall>i < length history. \<forall>c.
                 (history ! i) ''role'' = Some (PyStr ''user'')
                 \<and> (history ! i) ''content'' = Some (PyStr c)
                 \<longrightarrow> out ! i = (history ! i)(''content'' \<mapsto> PyStr (redact c)))"
proof -
  from assms have "\<forall>m \<in> set history. well_formed m"
    by (simp add: well_formed_def)
  then have out: "filter_sensitive_data history = Inr (map filtered history)"
    by (simp add: filter_sensitive_data_def filter_loop_well_formed)
  have other: "filtered m = m" if "m ''role'' \<noteq> Some (PyStr ''user'')" for m
    using that by (auto simp: filtered_def split: option.splits py_value.splits)
  have user: "filtered m = m(''content'' \<mapsto> PyStr (redact c))"
    if "m ''role'' = Some (PyStr ''user'')" "m ''content'' = Some (PyStr c)" for m c
    using that by (simp add: filtered_def)
  show ?thesis
    unfolding out using other user by simp
qed

lemma redact_demo:
  "redact ''card 4111-1111-1111-1111, ssn 123-45-6789'' = ''card [CARD-REDACTED], ssn [SSN-REDACTED]''"
  by code_simp

theorem filter_sensitive_data_frame_witness:
  "filter_sensitive_data demo_history =
     Inr [[''role'' \<mapsto> PyStr ''user'', ''content'' \<mapsto> PyStr ''card [CARD-REDACTED], ssn [SSN-REDACTED]''],
          [''role'' \<mapsto> PyStr ''assistant'', ''content'' \<mapsto> PyStr ''noted 4111-1111-1111-1111'']]"
proof -
  have pre: "\<forall>m \<in> set demo_history.
             m ''role'' = Some (PyStr ''user'') \<longrightarrow> (\<exists>c. m ''content'' = Some (PyStr c))"
    by (simp add: demo_history_def)
  have run: "filter_sensitive_data demo_history =
     Inr [[''role'' \<mapsto> PyStr ''user'', ''content'' \<mapsto> PyStr ''card [CARD-REDACTED], ssn [SSN-REDACTED]''],
          [''role'' \<mapsto> PyStr ''assistant'', ''content'' \<mapsto> PyStr ''noted 4111-1111-1111-1111'']]"
    by (simp add: filter_sensitive_data_def filter_message_def demo_history_def redact_demo)
  from filter_sensitive_data_frame [OF pre] run show ?thesis by simp
qed

end
